theory Spec2Isabelle
  imports Main "HOL-Library.AList"
begin

section \<open>The label registry of \<^verbatim>\<open>homeassistant/helpers/label_registry.py\<close>\<close>

text \<open>
  A Python \<^verbatim>\<open>dict\<close> keeps its keys in insertion order: assigning to a key that is
  present replaces the value in place, assigning to a new key appends it, \<^verbatim>\<open>del\<close>
  removes it. That is \<open>AList.update\<close>, \<open>AList.delete\<close> and \<open>map_of\<close> on an
  association list, which is how both dictionaries of the registry are modelled.

  Two functions the module calls are not part of it: \<^verbatim>\<open>str.casefold\<close> (a Python
  builtin, a Unicode table) and \<^verbatim>\<open>homeassistant.util.slugify\<close>. Every definition
  that reaches them takes them as the parameters \<open>cf\<close> and \<open>slug\<close>, so each theorem
  holds whatever the two functions compute.
\<close>

subsection \<open>Data\<close>

datatype error =
    KeyError string
  | ValueError string
  | AttributeError string
  | IllTyped string

text \<open>
  \<open>KeyError\<close> and \<open>ValueError\<close> are the two exceptions the module raises (a missing
  dictionary key; a name already in use). \<open>AttributeError\<close> is what
  \<^verbatim>\<open>None.casefold()\<close> raises when a stored name is \<^verbatim>\<open>None\<close>. \<open>IllTyped\<close> is not a
  Python exception: it marks a stored \<^verbatim>\<open>label_id\<close> that is \<^verbatim>\<open>None\<close>, which
  \<^verbatim>\<open>LabelEntry.label_id: str\<close> excludes and the model does not follow further.
\<close>

record LabelEntry =
  label_id :: string
  name :: string
  normalized_name :: string
  description :: "string option"
  color :: "string option"
  icon :: "string option"

text \<open>The sentinel \<^verbatim>\<open>UNDEFINED\<close> of \<^verbatim>\<open>async_update\<close>: an argument is left out or given.\<close>

datatype 'a arg = UNDEFINED | Value 'a

text \<open>
  The calls the registry makes on its collaborators, in the order it makes them:
  the two registries that drop references to a label, the store's delayed save, and the
  event bus.

  The device and the entity registry are reached through \<^verbatim>\<open>self.hass\<close>, through which
  they can read the label registry while they run. Each of the two clean-up calls is
  therefore logged with the two dictionaries of the label registry (\<^verbatim>\<open>self.labels\<close> and
  the index) as they are at the moment of the call: the log shows whether the label was
  still there.
\<close>

type_synonym dictionaries = "(string \<times> LabelEntry) list \<times> (string \<times> string) list"

datatype call =
    DeviceRegistryClearLabelId string dictionaries
  | EntityRegistryClearLabelId string dictionaries
  | StoreDelaySave nat
  | BusFire string "(string \<times> string) list"

record LabelRegistry =
  labels :: "(string \<times> LabelEntry) list"
  normalized_name_label_idx :: "(string \<times> string) list"
  calls :: "call list"

text \<open>
  A method returns its value or the exception it raised, together with the registry as
  the method left it: an exception does not undo the assignments made before it.
\<close>

type_synonym 'a outcome = "(error + 'a) \<times> LabelRegistry"

definition EVENT_LABEL_REGISTRY_UPDATED :: string where
  "EVENT_LABEL_REGISTRY_UPDATED = ''label_registry_updated''"

definition SAVE_DELAY :: nat where
  "SAVE_DELAY = 10"

definition init :: LabelRegistry where
  "init = \<lparr>labels = [], normalized_name_label_idx = [], calls = []\<rparr>"

subsection \<open>Name normalisation and lookups\<close>

definition normalize_label_name :: "(string \<Rightarrow> string) \<Rightarrow> string \<Rightarrow> string" where
  "normalize_label_name cf label_name = filter (\<lambda>c. c \<noteq> CHR '' '') (cf label_name)"

definition async_get_label :: "LabelRegistry \<Rightarrow> string \<Rightarrow> LabelEntry option" where
  "async_get_label r lid = map_of (labels r) lid"

definition async_get_label_by_name ::
  "(string \<Rightarrow> string) \<Rightarrow> LabelRegistry \<Rightarrow> string \<Rightarrow> error + LabelEntry option" where
  "async_get_label_by_name cf r label_name =
     (let normalized = normalize_label_name cf label_name in
      case map_of (normalized_name_label_idx r) normalized of
        None \<Rightarrow> Inr None
      | Some lid \<Rightarrow>
          (case map_of (labels r) lid of
             None \<Rightarrow> Inl (KeyError lid)
           | Some label \<Rightarrow> Inr (Some label)))"

definition async_list_labels :: "LabelRegistry \<Rightarrow> LabelEntry list" where
  "async_list_labels r = map snd (labels r)"

subsection \<open>Identifier generation\<close>

definition digit_char :: "nat \<Rightarrow> char" where
  "digit_char d = ''0123456789'' ! d"

text \<open>Python's \<^verbatim>\<open>str\<close> of a non-negative integer: its decimal digits.\<close>

fun str_nat :: "nat \<Rightarrow> string" where
  "str_nat n = (if n < 10 then [digit_char n] else str_nat (n div 10) @ [digit_char (n mod 10)])"

declare str_nat.simps [simp del]

definition digit_val :: "char \<Rightarrow> nat" where
  "digit_val c = of_char c - 48"

definition nat_str :: "string \<Rightarrow> nat" where
  "nat_str s = foldl (\<lambda>acc c. acc * 10 + digit_val c) 0 s"

lemma digit_val_digit_char: "d < 10 \<Longrightarrow> digit_val (digit_char d) = d"
proof -
  assume "d < 10"
  then have "d \<in> {0, 1, 2, 3, 4, 5, 6, 7, 8, 9}" by auto
  then show ?thesis
    by (auto simp: digit_val_def digit_char_def)
qed

lemma nat_str_str_nat: "nat_str (str_nat n) = n"
proof (induction n rule: str_nat.induct)
  case (1 n)
  show ?case
  proof (cases "n < 10")
    case True
    then show ?thesis
      by (simp add: str_nat.simps [of n] nat_str_def digit_val_digit_char)
  next
    case False
    with "1" have ih: "nat_str (str_nat (n div 10)) = n div 10" by simp
    have "nat_str (str_nat n) = nat_str (str_nat (n div 10)) * 10 + digit_val (digit_char (n mod 10))"
      using False by (simp add: str_nat.simps [of n] nat_str_def)
    also have "\<dots> = n div 10 * 10 + n mod 10"
      by (simp add: ih digit_val_digit_char)
    finally show ?thesis by simp
  qed
qed

lemma str_nat_inj: "str_nat m = str_nat n \<Longrightarrow> m = n"
  by (metis nat_str_str_nat)

text \<open>
  The loop of \<^verbatim>\<open>_generate_id\<close>: while the suggestion is a key of \<^verbatim>\<open>self.labels\<close>,
  count one further and suggest \<^verbatim>\<open>f"{suggestion_base}_{tries}"\<close>.
\<close>

function generate_id_loop ::
  "(string \<times> LabelEntry) list \<Rightarrow> string \<Rightarrow> nat \<Rightarrow> string \<Rightarrow> string" where
  "generate_id_loop ls suggestion_base tries suggestion =
     (if suggestion \<in> fst ` set ls
      then generate_id_loop ls suggestion_base (tries + 1)
             (suggestion_base @ ''_'' @ str_nat (tries + 1))
      else suggestion)"
  by pat_completeness auto

lemma slot_inj: "inj (\<lambda>j. suggestion_base @ ''_'' @ str_nat j)"
  by (auto simp: inj_on_def dest: str_nat_inj)

lemma finite_later_slots:
  "finite {j. t < j \<and> suggestion_base @ ''_'' @ str_nat j \<in> fst ` set (ls :: (string \<times> LabelEntry) list)}"
proof -
  have "finite ((\<lambda>j. suggestion_base @ ''_'' @ str_nat j) -` (fst ` set ls))"
    by (rule finite_vimageI [OF _ slot_inj]) simp
  then show ?thesis
    by (rule rev_finite_subset) auto
qed

lemma card_later_slots:
  "card {j. t < j \<and> suggestion_base @ ''_'' @ str_nat j \<in> fst ` set (ls :: (string \<times> LabelEntry) list)} =
   card {j. Suc t < j \<and> suggestion_base @ ''_'' @ str_nat j \<in> fst ` set ls} +
   (if suggestion_base @ ''_'' @ str_nat (Suc t) \<in> fst ` set ls then 1 else 0)"
proof (cases "suggestion_base @ ''_'' @ str_nat (Suc t) \<in> fst ` set ls")
  case True
  then have "{j. t < j \<and> suggestion_base @ ''_'' @ str_nat j \<in> fst ` set ls} =
     insert (Suc t) {j. Suc t < j \<and> suggestion_base @ ''_'' @ str_nat j \<in> fst ` set ls}"
    by (auto simp: less_Suc_eq Suc_lessI)
  then show ?thesis
    using True finite_later_slots [of "Suc t" suggestion_base ls] by simp
next
  case False
  then have "{j. t < j \<and> suggestion_base @ ''_'' @ str_nat j \<in> fst ` set ls} =
     {j. Suc t < j \<and> suggestion_base @ ''_'' @ str_nat j \<in> fst ` set ls}"
    by (metis (no_types, opaque_lifting) Suc_lessI Suc_lessD)
  then show ?thesis
    using False by simp
qed

text \<open>
  The loop ends because the suggestions \<open>base_2, base_3, \<dots>\<close> are pairwise different
  and the dictionary is finite: each round uses up one of the keys still ahead.
\<close>

termination generate_id_loop
proof (relation "measure (\<lambda>(ls, suggestion_base, tries, suggestion).
         card {j. tries < j \<and> suggestion_base @ ''_'' @ str_nat j \<in> fst ` set ls} +
         (if suggestion \<in> fst ` set ls then 1 else 0))", goal_cases)
  case 1
  show ?case by simp
next
  case (2 ls suggestion_base tries suggestion)
  then show ?case
    using card_later_slots [of tries suggestion_base ls] by simp
qed

declare generate_id_loop.simps [simp del]

definition generate_id :: "(string \<Rightarrow> string) \<Rightarrow> LabelRegistry \<Rightarrow> string \<Rightarrow> string" where
  "generate_id slug r label_name =
     (let suggestion_base = slug label_name
      in generate_id_loop (labels r) suggestion_base 1 suggestion_base)"

subsection \<open>Collaborators\<close>

definition async_schedule_save :: "LabelRegistry \<Rightarrow> LabelRegistry" where
  "async_schedule_save r = r\<lparr>calls := calls r @ [StoreDelaySave SAVE_DELAY]\<rparr>"

definition bus_async_fire :: "string \<Rightarrow> (string \<times> string) list \<Rightarrow> LabelRegistry \<Rightarrow> LabelRegistry" where
  "bus_async_fire event_type event_data r = r\<lparr>calls := calls r @ [BusFire event_type event_data]\<rparr>"

text \<open>
  Line 122, \<^verbatim>\<open>dr.async_get(self.hass).async_clear_label_id(label_id)\<close>, and line 123, the
  same call on the entity registry: each is logged with the dictionaries of the state
  in which it is made.
\<close>

definition device_registry_clear_label_id :: "string \<Rightarrow> LabelRegistry \<Rightarrow> LabelRegistry" where
  "device_registry_clear_label_id lid r =
     r\<lparr>calls := calls r @
         [DeviceRegistryClearLabelId lid (labels r, normalized_name_label_idx r)]\<rparr>"

definition entity_registry_clear_label_id :: "string \<Rightarrow> LabelRegistry \<Rightarrow> LabelRegistry" where
  "entity_registry_clear_label_id lid r =
     r\<lparr>calls := calls r @
         [EntityRegistryClearLabelId lid (labels r, normalized_name_label_idx r)]\<rparr>"

text \<open>Lines 121 to 123 of \<^verbatim>\<open>async_delete\<close>: the two clean-up calls, device registry first.\<close>

definition clear_label_references :: "string \<Rightarrow> LabelRegistry \<Rightarrow> LabelRegistry" where
  "clear_label_references lid r =
     entity_registry_clear_label_id lid (device_registry_clear_label_id lid r)"

subsection \<open>Create\<close>

definition name_in_use :: "string \<Rightarrow> string \<Rightarrow> error" where
  "name_in_use label_name normalized =
     ValueError (''The name '' @ label_name @ '' ('' @ normalized @ '') is already in use'')"

definition async_create ::
  "(string \<Rightarrow> string) \<Rightarrow> (string \<Rightarrow> string) \<Rightarrow> LabelRegistry \<Rightarrow> string \<Rightarrow>
   string option \<Rightarrow> string option \<Rightarrow> string option \<Rightarrow> LabelEntry outcome" where
  "async_create cf slug r label_name new_color new_icon new_description =
     (let normalized = normalize_label_name cf label_name in
      case async_get_label_by_name cf r label_name of
        Inl e \<Rightarrow> (Inl e, r)
      | Inr (Some _) \<Rightarrow> (Inl (name_in_use label_name normalized), r)
      | Inr None \<Rightarrow>
          (let label = \<lparr>label_id = generate_id slug r label_name,
                        name = label_name,
                        normalized_name = normalized,
                        description = new_description,
                        color = new_color,
                        icon = new_icon\<rparr>;
               r1 = r\<lparr>labels := AList.update (label_id label) label (labels r)\<rparr>;
               r2 = r1\<lparr>normalized_name_label_idx :=
                         AList.update normalized (label_id label) (normalized_name_label_idx r1)\<rparr>;
               r3 = async_schedule_save r2;
               r4 = bus_async_fire EVENT_LABEL_REGISTRY_UPDATED
                      [(''action'', ''create''), (''label_id'', label_id label)] r3
           in (Inr label, r4)))"

definition async_get_or_create ::
  "(string \<Rightarrow> string) \<Rightarrow> (string \<Rightarrow> string) \<Rightarrow> LabelRegistry \<Rightarrow> string \<Rightarrow> LabelEntry outcome" where
  "async_get_or_create cf slug r label_name =
     (case async_get_label_by_name cf r label_name of
        Inl e \<Rightarrow> (Inl e, r)
      | Inr (Some label) \<Rightarrow> (Inr label, r)
      | Inr None \<Rightarrow> async_create cf slug r label_name None None None)"

subsection \<open>Delete\<close>

text \<open>
  Lines 125 to 132: the two \<^verbatim>\<open>del\<close> statements, the event and the save. The second
  \<^verbatim>\<open>del\<close> raises \<^verbatim>\<open>KeyError\<close> when the index has no entry for the label's normalised
  name; the label is gone from \<^verbatim>\<open>self.labels\<close> by then.
\<close>

definition remove_label :: "string \<Rightarrow> LabelEntry \<Rightarrow> LabelRegistry \<Rightarrow> unit outcome" where
  "remove_label lid label r1 =
     (let r2 = r1\<lparr>labels := AList.delete lid (labels r1)\<rparr>
      in if map_of (normalized_name_label_idx r2) (normalized_name label) = None
         then (Inl (KeyError (normalized_name label)), r2)
         else
           (let r3 = r2\<lparr>normalized_name_label_idx :=
                         AList.delete (normalized_name label) (normalized_name_label_idx r2)\<rparr>;
                r4 = bus_async_fire EVENT_LABEL_REGISTRY_UPDATED
                       [(''action'', ''remove''), (''label_id'', lid)] r3;
                r5 = async_schedule_save r4
            in (Inr (), r5)))"

definition async_delete :: "LabelRegistry \<Rightarrow> string \<Rightarrow> unit outcome" where
  "async_delete r lid =
     (case map_of (labels r) lid of
        None \<Rightarrow> (Inl (KeyError lid), r)
      | Some label \<Rightarrow> remove_label lid label (clear_label_references lid r))"

subsection \<open>Update\<close>

text \<open>The keyword arguments handed to \<^verbatim>\<open>dataclasses.replace\<close>, one per changed attribute.\<close>

datatype change =
    Color "string option"
  | Description "string option"
  | Icon "string option"
  | Name string
  | NormalizedName string

fun replace_field :: "change \<Rightarrow> LabelEntry \<Rightarrow> LabelEntry" where
  "replace_field (Color v) e = e\<lparr>color := v\<rparr>"
| "replace_field (Description v) e = e\<lparr>description := v\<rparr>"
| "replace_field (Icon v) e = e\<lparr>icon := v\<rparr>"
| "replace_field (Name v) e = e\<lparr>name := v\<rparr>"
| "replace_field (NormalizedName v) e = e\<lparr>normalized_name := v\<rparr>"

definition dataclasses_replace :: "LabelEntry \<Rightarrow> change list \<Rightarrow> LabelEntry" where
  "dataclasses_replace old changes = fold replace_field changes old"

text \<open>
  Lines 145 to 153: the attributes among color, description and icon that are given and
  differ from the old value.
\<close>

definition changed_attrs ::
  "LabelEntry \<Rightarrow> string option arg \<Rightarrow> string option arg \<Rightarrow> string option arg \<Rightarrow> change list" where
  "changed_attrs old new_color new_description new_icon =
     (case new_color of
        UNDEFINED \<Rightarrow> []
      | Value v \<Rightarrow> if color old \<noteq> v then [Color v] else []) @
     (case new_description of
        UNDEFINED \<Rightarrow> []
      | Value v \<Rightarrow> if description old \<noteq> v then [Description v] else []) @
     (case new_icon of
        UNDEFINED \<Rightarrow> []
      | Value v \<Rightarrow> if icon old \<noteq> v then [Icon v] else [])"

text \<open>
  Lines 155 to 167: the changes a new name adds and the value of the local variable
  \<^verbatim>\<open>normalized_name\<close> (\<open>None\<close> when the name is not given or is the old one).
  The index is consulted only when the normalised name differs from the old one.
\<close>

definition changed_name ::
  "(string \<Rightarrow> string) \<Rightarrow> LabelRegistry \<Rightarrow> LabelEntry \<Rightarrow> string arg \<Rightarrow>
   error + (change list \<times> string option)" where
  "changed_name cf r old new_name =
     (case new_name of
        UNDEFINED \<Rightarrow> Inr ([], None)
      | Value n \<Rightarrow>
          if n \<noteq> name old then
            (let normalized = normalize_label_name cf n in
             if normalized \<noteq> normalized_name old then
               (case async_get_label_by_name cf r n of
                  Inl e \<Rightarrow> Inl e
                | Inr (Some _) \<Rightarrow> Inl (name_in_use n normalized)
                | Inr None \<Rightarrow> Inr ([Name n, NormalizedName normalized], Some normalized))
             else Inr ([Name n, NormalizedName normalized], Some normalized))
          else Inr ([], None))"

definition async_update ::
  "(string \<Rightarrow> string) \<Rightarrow> LabelRegistry \<Rightarrow> string \<Rightarrow>
   string option arg \<Rightarrow> string option arg \<Rightarrow> string option arg \<Rightarrow> string arg \<Rightarrow>
   LabelEntry outcome" where
  "async_update cf r lid new_color new_description new_icon new_name =
     (case map_of (labels r) lid of
        None \<Rightarrow> (Inl (KeyError lid), r)
      | Some old \<Rightarrow>
          (case changed_name cf r old new_name of
             Inl e \<Rightarrow> (Inl e, r)
           | Inr (name_changes, normalized) \<Rightarrow>
               (let changes = changed_attrs old new_color new_description new_icon @ name_changes
                in if changes = [] then (Inr old, r)
                   else
                     (let new = dataclasses_replace old changes;
                          r1 = r\<lparr>labels := AList.update lid new (labels r)\<rparr>
                      in case normalized of
                           None \<Rightarrow>
                             (Inr new,
                              bus_async_fire EVENT_LABEL_REGISTRY_UPDATED
                                [(''action'', ''update''), (''label_id'', lid)]
                                (async_schedule_save r1))
                         | Some nn \<Rightarrow>
                             (case map_of (normalized_name_label_idx r1) (normalized_name old) of
                                None \<Rightarrow> (Inl (KeyError (normalized_name old)), r1)
                              | Some popped \<Rightarrow>
                                  (let r2 = r1\<lparr>normalized_name_label_idx :=
                                                AList.update nn popped
                                                  (AList.delete (normalized_name old)
                                                     (normalized_name_label_idx r1))\<rparr>
                                   in (Inr new,
                                       bus_async_fire EVENT_LABEL_REGISTRY_UPDATED
                                         [(''action'', ''update''), (''label_id'', lid)]
                                         (async_schedule_save r2))))))))"

subsection \<open>Saving and loading\<close>

type_synonym stored_label = "(string \<times> string option) list"

definition data_to_save :: "LabelRegistry \<Rightarrow> (string \<times> stored_label list) list" where
  "data_to_save r =
     [(''labels'',
       map (\<lambda>entry. [(''color'', color entry),
                      (''description'', description entry),
                      (''icon'', icon entry),
                      (''label_id'', Some (label_id entry)),
                      (''name'', Some (name entry))])
           (map snd (labels r)))]"

definition getitem :: "(string \<times> 'v) list \<Rightarrow> string \<Rightarrow> error + 'v" where
  "getitem d k = (case map_of d k of None \<Rightarrow> Inl (KeyError k) | Some v \<Rightarrow> Inr v)"

text \<open>
  The loop of \<^verbatim>\<open>async_load\<close>. It fills the local dictionary \<open>ls\<close> and writes the index of
  the registry as it goes; \<^verbatim>\<open>self.labels\<close> is assigned after the loop. The subscripts
  of one round are read in the order Python evaluates them: the name (line 192), then
  color, description, icon and label\_id (lines 193 to 200).
\<close>

fun load_labels ::
  "(string \<Rightarrow> string) \<Rightarrow> stored_label list \<Rightarrow> (string \<times> LabelEntry) list \<Rightarrow> LabelRegistry \<Rightarrow>
   (error + (string \<times> LabelEntry) list) \<times> LabelRegistry" where
  "load_labels cf [] ls r = (Inr ls, r)"
| "load_labels cf (label # rest) ls r =
     (case getitem label ''name'' of
        Inl e \<Rightarrow> (Inl e, r)
      | Inr None \<Rightarrow> (Inl (AttributeError ''casefold''), r)
      | Inr (Some stored_name) \<Rightarrow>
          (let normalized = normalize_label_name cf stored_name in
           case getitem label ''color'' of
             Inl e \<Rightarrow> (Inl e, r)
           | Inr stored_color \<Rightarrow>
          (case getitem label ''description'' of
             Inl e \<Rightarrow> (Inl e, r)
           | Inr stored_description \<Rightarrow>
          (case getitem label ''icon'' of
             Inl e \<Rightarrow> (Inl e, r)
           | Inr stored_icon \<Rightarrow>
          (case getitem label ''label_id'' of
             Inl e \<Rightarrow> (Inl e, r)
           | Inr None \<Rightarrow> (Inl (IllTyped ''label_id''), r)
           | Inr (Some lid) \<Rightarrow>
               load_labels cf rest
                 (AList.update lid
                    \<lparr>label_id = lid, name = stored_name, normalized_name = normalized,
                     description = stored_description, color = stored_color,
                     icon = stored_icon\<rparr> ls)
                 (r\<lparr>normalized_name_label_idx :=
                      AList.update normalized lid (normalized_name_label_idx r)\<rparr>))))))"

definition async_load ::
  "(string \<Rightarrow> string) \<Rightarrow> LabelRegistry \<Rightarrow> (string \<times> stored_label list) list option \<Rightarrow> unit outcome" where
  "async_load cf r data =
     (case data of
        None \<Rightarrow> (Inr (), r\<lparr>labels := []\<rparr>)
      | Some d \<Rightarrow>
          (case getitem d ''labels'' of
             Inl e \<Rightarrow> (Inl e, r)
           | Inr rows \<Rightarrow>
               (case load_labels cf rows [] r of
                  (Inl e, r') \<Rightarrow> (Inl e, r')
                | (Inr ls, r') \<Rightarrow> (Inr (), r'\<lparr>labels := ls\<rparr>))))"

text \<open>
  The module's \<^verbatim>\<open>async_load(hass)\<close>: a new \<^verbatim>\<open>LabelRegistry\<close> loaded from what the
  store holds.
\<close>

definition load_registry ::
  "(string \<Rightarrow> string) \<Rightarrow> (string \<times> stored_label list) list option \<Rightarrow> unit outcome" where
  "load_registry cf data = async_load cf init data"

subsection \<open>The invariants of the data model\<close>

definition keys :: "('k \<times> 'v) list \<Rightarrow> 'k list" where
  "keys d = map fst d"

text \<open>Invariant 1: the index entry of each label's normalised name is the label's id.\<close>

definition index_consistent :: "LabelRegistry \<Rightarrow> bool" where
  "index_consistent r =
     (\<forall>lid \<in> set (keys (labels r)).
        case map_of (labels r) lid of
          None \<Rightarrow> False
        | Some e \<Rightarrow> map_of (normalized_name_label_idx r) (normalized_name e) = Some lid)"

text \<open>Invariant 2: as many index entries as labels.\<close>

definition equal_cardinality :: "LabelRegistry \<Rightarrow> bool" where
  "equal_cardinality r =
     (card (set (keys (labels r))) = card (set (keys (normalized_name_label_idx r))))"

text \<open>Invariant 3: no two labels share a normalised name.\<close>

definition names_unique :: "LabelRegistry \<Rightarrow> bool" where
  "names_unique r =
     (\<forall>a \<in> set (keys (labels r)). \<forall>b \<in> set (keys (labels r)).
        map_option normalized_name (map_of (labels r) a) =
        map_option normalized_name (map_of (labels r) b) \<longrightarrow> a = b)"

definition registry_inv :: "LabelRegistry \<Rightarrow> bool" where
  "registry_inv r = (index_consistent r \<and> equal_cardinality r \<and> names_unique r)"

text \<open>
  What else holds of every registry the methods build: both association lists are
  dictionaries (no key twice), a label is stored under its own id, and its normalised
  name is the normalisation of its name.
\<close>

definition entries_derived :: "(string \<Rightarrow> string) \<Rightarrow> LabelRegistry \<Rightarrow> bool" where
  "entries_derived cf r =
     (\<forall>(lid, e) \<in> set (labels r).
        label_id e = lid \<and> normalized_name e = normalize_label_name cf (name e))"

definition wellformed :: "(string \<Rightarrow> string) \<Rightarrow> LabelRegistry \<Rightarrow> bool" where
  "wellformed cf r =
     (distinct (keys (labels r)) \<and> distinct (keys (normalized_name_label_idx r)) \<and>
      entries_derived cf r \<and> registry_inv r)"

text \<open>The index has no entry without a label: with invariant 1 this is invariant 2.\<close>

definition index_onto :: "LabelRegistry \<Rightarrow> bool" where
  "index_onto r =
     (\<forall>n lid. map_of (normalized_name_label_idx r) n = Some lid \<longrightarrow>
        (\<exists>e. map_of (labels r) lid = Some e \<and> normalized_name e = n))"

subsection \<open>Sequences of calls\<close>

datatype operation =
    Create string "string option" "string option" "string option"
  | Update string "string option arg" "string option arg" "string option arg" "string arg"
  | Delete string

fun apply_operation ::
  "(string \<Rightarrow> string) \<Rightarrow> (string \<Rightarrow> string) \<Rightarrow> LabelRegistry \<Rightarrow> operation \<Rightarrow> unit outcome" where
  "apply_operation cf slug r (Create n c i d) =
     (case async_create cf slug r n c i d of (res, r') \<Rightarrow> (map_sum id (\<lambda>_. ()) res, r'))"
| "apply_operation cf slug r (Update lid c d i n) =
     (case async_update cf r lid c d i n of (res, r') \<Rightarrow> (map_sum id (\<lambda>_. ()) res, r'))"
| "apply_operation cf slug r (Delete lid) = async_delete r lid"

text \<open>A sequence of calls, each of which returns without an exception.\<close>

fun run_operations ::
  "(string \<Rightarrow> string) \<Rightarrow> (string \<Rightarrow> string) \<Rightarrow> operation list \<Rightarrow> LabelRegistry \<Rightarrow>
   error + LabelRegistry" where
  "run_operations cf slug [] r = Inr r"
| "run_operations cf slug (op # ops) r =
     (case apply_operation cf slug r op of
        (Inl e, _) \<Rightarrow> Inl e
      | (Inr _, r') \<Rightarrow> run_operations cf slug ops r')"

subsection \<open>The two parameters on ASCII names\<close>

text \<open>
  \<^verbatim>\<open>str.casefold\<close> on a string of ASCII characters: the capital letters become small,
  everything else stays.
\<close>

definition casefold_ascii :: "string \<Rightarrow> string" where
  "casefold_ascii s =
     map (\<lambda>c. let k = of_char c :: nat in if 65 \<le> k \<and> k \<le> 90 then char_of (k + 32) else c) s"

definition is_alnum :: "char \<Rightarrow> bool" where
  "is_alnum c = (let k = of_char c :: nat in
     (48 \<le> k \<and> k \<le> 57) \<or> (65 \<le> k \<and> k \<le> 90) \<or> (97 \<le> k \<and> k \<le> 122))"

fun join_tokens :: "string \<Rightarrow> string" where
  "join_tokens [] = []"
| "join_tokens (c # s) =
     (if is_alnum c then c # join_tokens s
      else (case s of
              [] \<Rightarrow> []
            | d # _ \<Rightarrow> if is_alnum d then CHR ''_'' # join_tokens s else join_tokens s))"

text \<open>
  Modelled from the spec: \<^verbatim>\<open>homeassistant.util.slugify\<close>, which the module imports and
  whose source is not at hand. The spec calls the slug a lowercase, separator-joined
  token form of the name: on ASCII names, the runs of letters and digits in lower case,
  joined by \<^verbatim>\<open>_\<close>. It serves as the parameter \<open>slug\<close> in the examples only.
\<close>

definition slugify_ascii :: "string \<Rightarrow> string" where
  "slugify_ascii s = join_tokens (dropWhile (\<lambda>x. \<not> is_alnum x) (casefold_ascii s))"

text \<open>A registry with two labels, as two calls of \<^verbatim>\<open>async_create\<close> leave it.\<close>

definition night_mode :: LabelEntry where
  "night_mode = \<lparr>label_id = ''night_mode'', name = ''Night Mode'',
     normalized_name = ''nightmode'', description = None, color = Some ''blue'', icon = None\<rparr>"

definition work :: LabelEntry where
  "work = \<lparr>label_id = ''work'', name = ''Work'',
     normalized_name = ''work'', description = Some ''office'', color = None, icon = None\<rparr>"

definition example_registry :: LabelRegistry where
  "example_registry =
     \<lparr>labels = [(''night_mode'', night_mode), (''work'', work)],
      normalized_name_label_idx = [(''nightmode'', ''night_mode''), (''work'', ''work'')],
      calls = []\<rparr>"

text \<open>
  The dictionaries after a create, a second create and a rename, and the registry after
  the delete that follows.
\<close>

definition before_delete :: dictionaries where
  "before_delete =
     ([(''foo'', \<lparr>label_id = ''foo'', name = ''Bar'', normalized_name = ''bar'',
                  description = None, color = None, icon = None\<rparr>),
       (''night_mode'', \<lparr>label_id = ''night_mode'', name = ''Night Mode'',
                  normalized_name = ''nightmode'', description = None, color = Some ''blue'',
                  icon = None\<rparr>)],
      [(''nightmode'', ''night_mode''), (''bar'', ''foo'')])"

definition after_four_calls :: LabelRegistry where
  "after_four_calls =
     \<lparr>labels = [(''foo'', \<lparr>label_id = ''foo'', name = ''Bar'', normalized_name = ''bar'',
                   description = None, color = None, icon = None\<rparr>)],
      normalized_name_label_idx = [(''bar'', ''foo'')],
      calls =
        [StoreDelaySave 10,
         BusFire ''label_registry_updated'' [(''action'', ''create''), (''label_id'', ''foo'')],
         StoreDelaySave 10,
         BusFire ''label_registry_updated'' [(''action'', ''create''), (''label_id'', ''night_mode'')],
         StoreDelaySave 10,
         BusFire ''label_registry_updated'' [(''action'', ''update''), (''label_id'', ''foo'')],
         DeviceRegistryClearLabelId ''night_mode'' before_delete,
         EntityRegistryClearLabelId ''night_mode'' before_delete,
         BusFire ''label_registry_updated'' [(''action'', ''remove''), (''label_id'', ''night_mode'')],
         StoreDelaySave 10]\<rparr>"

text \<open>The registry after \<^verbatim>\<open>async_create("Foo")\<close> on a new one.\<close>

definition foo :: LabelEntry where
  "foo = \<lparr>label_id = ''foo'', name = ''Foo'', normalized_name = ''foo'',
     description = None, color = None, icon = None\<rparr>"

definition after_create_foo :: LabelRegistry where
  "after_create_foo =
     \<lparr>labels = [(''foo'', foo)],
      normalized_name_label_idx = [(''foo'', ''foo'')],
      calls = [StoreDelaySave 10,
         BusFire ''label_registry_updated'' [(''action'', ''create''), (''label_id'', ''foo'')]]\<rparr>"

text \<open>The label \<^verbatim>\<open>async_create("Work!")\<close> adds to the example registry.\<close>

definition work_2 :: LabelEntry where
  "work_2 = \<lparr>label_id = ''work_2'', name = ''Work!'', normalized_name = ''work!'',
     description = None, color = None, icon = None\<rparr>"

text \<open>The dictionary \<^verbatim>\<open>_data_to_save\<close> writes for one label.\<close>

definition stored_row :: "LabelEntry \<Rightarrow> stored_label" where
  "stored_row entry =
     [(''color'', color entry), (''description'', description entry), (''icon'', icon entry),
      (''label_id'', Some (label_id entry)), (''name'', Some (name entry))]"

text \<open>
  Python's \<^verbatim>\<open>str.isspace\<close> on an ASCII character: tab, line feed, vertical tab, form
  feed, carriage return, the four separators \<^verbatim>\<open>\x1c\<close> to \<^verbatim>\<open>\x1f\<close>, and the space.
\<close>

definition is_whitespace :: "char \<Rightarrow> bool" where
  "is_whitespace c = (let k = of_char c :: nat in (9 \<le> k \<and> k \<le> 13) \<or> (28 \<le> k \<and> k \<le> 32))"

text \<open>
  The normalised name in the words of the spec and of the docstring of
  \<^verbatim>\<open>normalize_label_name\<close>: case-folded, whitespace removed.
\<close>

definition spec_normalized_name :: "(string \<Rightarrow> string) \<Rightarrow> string \<Rightarrow> string" where
  "spec_normalized_name cf label_name = filter (\<lambda>c. \<not> is_whitespace c) (cf label_name)"

text \<open>The name "Night Mode" written with a tab in place of the space.\<close>

definition night_tab_mode :: string where
  "night_tab_mode = ''Night'' @ [CHR 0x09] @ ''Mode''"

section \<open>Properties\<close>

subsection \<open>Dictionaries and the invariants\<close>

lemma key_iff: "k \<in> set (keys xs) \<longleftrightarrow> (\<exists>v. map_of xs k = Some v)"
  using map_of_eq_None_iff [of xs k] by (auto simp: keys_def)

lemma index_consistent_iff:
  "index_consistent r \<longleftrightarrow>
     (\<forall>lid e. map_of (labels r) lid = Some e \<longrightarrow>
        map_of (normalized_name_label_idx r) (normalized_name e) = Some lid)"
proof
  assume a: "index_consistent r"
  show "\<forall>lid e. map_of (labels r) lid = Some e \<longrightarrow>
        map_of (normalized_name_label_idx r) (normalized_name e) = Some lid"
  proof (intro allI impI)
    fix lid e assume l: "map_of (labels r) lid = Some e"
    then have "lid \<in> set (keys (labels r))" by (auto simp: key_iff)
    with a l show "map_of (normalized_name_label_idx r) (normalized_name e) = Some lid"
      unfolding index_consistent_def by fastforce
  qed
next
  assume a: "\<forall>lid e. map_of (labels r) lid = Some e \<longrightarrow>
        map_of (normalized_name_label_idx r) (normalized_name e) = Some lid"
  show "index_consistent r"
    unfolding index_consistent_def
  proof
    fix lid assume "lid \<in> set (keys (labels r))"
    then obtain e where "map_of (labels r) lid = Some e" by (auto simp: key_iff)
    with a show "case map_of (labels r) lid of None \<Rightarrow> False
       | Some e \<Rightarrow> map_of (normalized_name_label_idx r) (normalized_name e) = Some lid"
      by simp
  qed
qed

lemma names_unique_iff:
  "names_unique r \<longleftrightarrow>
     (\<forall>a b ea eb. map_of (labels r) a = Some ea \<longrightarrow> map_of (labels r) b = Some eb \<longrightarrow>
        normalized_name ea = normalized_name eb \<longrightarrow> a = b)"
proof
  assume u: "names_unique r"
  show "\<forall>a b ea eb. map_of (labels r) a = Some ea \<longrightarrow> map_of (labels r) b = Some eb \<longrightarrow>
        normalized_name ea = normalized_name eb \<longrightarrow> a = b"
  proof (intro allI impI)
    fix a b ea eb
    assume h: "map_of (labels r) a = Some ea" "map_of (labels r) b = Some eb"
      "normalized_name ea = normalized_name eb"
    then have "a \<in> set (keys (labels r))" "b \<in> set (keys (labels r))"
      by (auto simp: key_iff)
    with u h show "a = b"
      unfolding names_unique_def by (metis option.simps(9))
  qed
next
  assume u: "\<forall>a b ea eb. map_of (labels r) a = Some ea \<longrightarrow> map_of (labels r) b = Some eb \<longrightarrow>
        normalized_name ea = normalized_name eb \<longrightarrow> a = b"
  show "names_unique r"
    unfolding names_unique_def
  proof (intro ballI impI)
    fix a b
    assume h: "a \<in> set (keys (labels r))" "b \<in> set (keys (labels r))"
      "map_option normalized_name (map_of (labels r) a) =
        map_option normalized_name (map_of (labels r) b)"
    from h(1,2) obtain ea eb where "map_of (labels r) a = Some ea" "map_of (labels r) b = Some eb"
      by (auto simp: key_iff)
    with u h(3) show "a = b" by simp
  qed
qed


lemma set_keys_dom: "set (keys xs) = dom (map_of xs)"
  by (simp add: keys_def dom_map_of_conv_image_fst)

lemma registry_inv_iff:
  "registry_inv r \<longleftrightarrow> index_consistent r \<and> index_onto r"
proof (cases "index_consistent r")
  case False
  then show ?thesis by (simp add: registry_inv_def)
next
  case c: True
  let ?L = "map_of (labels r)" and ?I = "map_of (normalized_name_label_idx r)"
  let ?f = "\<lambda>lid. normalized_name (the (?L lid))"
  have fin: "finite (dom ?L)" "finite (dom ?I)" by (simp_all add: finite_dom_map_of)
  have c': "\<And>lid e. ?L lid = Some e \<Longrightarrow> ?I (normalized_name e) = Some lid"
    using c by (simp add: index_consistent_iff)
  have inj: "inj_on ?f (dom ?L)"
  proof (rule inj_onI)
    fix x y assume "x \<in> dom ?L" "y \<in> dom ?L" "?f x = ?f y"
    then obtain ex ey where "?L x = Some ex" "?L y = Some ey" "normalized_name ex = normalized_name ey"
      by auto
    then show "x = y" using c' [of x ex] c' [of y ey] by simp
  qed
  have sub: "?f ` dom ?L \<subseteq> dom ?I"
  proof
    fix n assume "n \<in> ?f ` dom ?L"
    then obtain lid e where "?L lid = Some e" "n = normalized_name e" by auto
    then show "n \<in> dom ?I" using c' [of lid e] by auto
  qed
  have u: "names_unique r"
    unfolding names_unique_iff
  proof (intro allI impI)
    fix a b ea eb
    assume "?L a = Some ea" "?L b = Some eb" "normalized_name ea = normalized_name eb"
    then show "a = b" using c' [of a ea] c' [of b eb] by simp
  qed
  have "equal_cardinality r \<longleftrightarrow> index_onto r"
  proof
    assume "equal_cardinality r"
    then have "card (?f ` dom ?L) = card (dom ?I)"
      using inj by (simp add: equal_cardinality_def card_image set_keys_dom)
    with sub fin have eq: "?f ` dom ?L = dom ?I"
      by (simp add: card_subset_eq)
    show "index_onto r"
      unfolding index_onto_def
    proof (intro allI impI)
      fix n lid assume a: "?I n = Some lid"
      then have "n \<in> ?f ` dom ?L" using eq by blast
      then obtain l e where le: "?L l = Some e" "normalized_name e = n" by auto
      with c' [of l e] a have "l = lid" by simp
      with le show "\<exists>e. ?L lid = Some e \<and> normalized_name e = n" by blast
    qed
  next
    assume o: "index_onto r"
    have "dom ?I \<subseteq> ?f ` dom ?L"
    proof
      fix n assume "n \<in> dom ?I"
      then obtain lid where "?I n = Some lid" by blast
      with o obtain e where e: "?L lid = Some e" "normalized_name e = n"
        unfolding index_onto_def by blast
      then have "lid \<in> dom ?L" "?f lid = n" by auto
      then show "n \<in> ?f ` dom ?L" by blast
    qed
    with sub have "?f ` dom ?L = dom ?I" by blast
    then have "card (dom ?L) = card (dom ?I)"
      using inj by (metis card_image)
    then show "equal_cardinality r"
      by (simp add: equal_cardinality_def set_keys_dom)
  qed
  with c u show ?thesis
    by (simp add: registry_inv_def)
qed


lemma get_by_name_None:
  "map_of (normalized_name_label_idx r) (normalize_label_name cf n) = None \<Longrightarrow>
   async_get_label_by_name cf r n = Inr None"
  by (simp add: async_get_label_by_name_def)

lemma get_by_name_Some:
  "map_of (normalized_name_label_idx r) (normalize_label_name cf n) = Some lid \<Longrightarrow>
   map_of (labels r) lid = Some e \<Longrightarrow>
   async_get_label_by_name cf r n = Inr (Some e)"
  by (simp add: async_get_label_by_name_def)

lemma get_by_name_Inr_None:
  "async_get_label_by_name cf r n = Inr None \<longleftrightarrow>
   map_of (normalized_name_label_idx r) (normalize_label_name cf n) = None"
  by (simp add: async_get_label_by_name_def Let_def split: option.splits)

lemma registry_invI:
  assumes "\<And>lid e. map_of (labels r) lid = Some e \<Longrightarrow>
             map_of (normalized_name_label_idx r) (normalized_name e) = Some lid"
    and "\<And>n lid. map_of (normalized_name_label_idx r) n = Some lid \<Longrightarrow>
             \<exists>e. map_of (labels r) lid = Some e \<and> normalized_name e = n"
  shows "registry_inv r"
  using assms by (simp add: registry_inv_iff index_consistent_iff index_onto_def)

lemma registry_inv_fwd:
  "registry_inv r \<Longrightarrow> map_of (labels r) lid = Some e \<Longrightarrow>
   map_of (normalized_name_label_idx r) (normalized_name e) = Some lid"
  by (simp add: registry_inv_def index_consistent_iff)

lemma registry_inv_bwd:
  "registry_inv r \<Longrightarrow> map_of (normalized_name_label_idx r) n = Some lid \<Longrightarrow>
   \<exists>e. map_of (labels r) lid = Some e \<and> normalized_name e = n"
  by (simp add: registry_inv_iff index_onto_def)

subsection \<open>Identifier generation\<close>

lemma generate_id_loop_spec:
  "(suggestion \<notin> fst ` set ls \<longrightarrow> generate_id_loop ls base tries suggestion = suggestion) \<and>
   (suggestion \<in> fst ` set ls \<longrightarrow>
      (\<exists>j > tries. generate_id_loop ls base tries suggestion = base @ ''_'' @ str_nat j \<and>
         base @ ''_'' @ str_nat j \<notin> fst ` set ls \<and>
         (\<forall>k. tries < k \<and> k < j \<longrightarrow> base @ ''_'' @ str_nat k \<in> fst ` set ls)))"
proof (induction ls base tries suggestion rule: generate_id_loop.induct)
  case (1 ls base tries suggestion)
  show ?case
  proof (cases "suggestion \<in> fst ` set ls")
    case False
    then show ?thesis by (simp add: generate_id_loop.simps [of ls base tries suggestion])
  next
    case True
    let ?next = "base @ ''_'' @ str_nat (tries + 1)"
    have step: "generate_id_loop ls base tries suggestion = generate_id_loop ls base (tries + 1) ?next"
      using True by (simp add: generate_id_loop.simps [of ls base tries suggestion])
    show ?thesis
    proof (cases "?next \<in> fst ` set ls")
      case False
      with "1.IH" [OF True] have "generate_id_loop ls base (tries + 1) ?next = ?next" by blast
      with step False True show ?thesis
        by (intro conjI impI exI [of _ "tries + 1"]) auto
    next
      case taken: True
      with "1.IH" [OF True] obtain j where j: "tries + 1 < j"
        "generate_id_loop ls base (tries + 1) ?next = base @ ''_'' @ str_nat j"
        "base @ ''_'' @ str_nat j \<notin> fst ` set ls"
        "\<forall>k. tries + 1 < k \<and> k < j \<longrightarrow> base @ ''_'' @ str_nat k \<in> fst ` set ls"
        by blast
      have "\<forall>k. tries < k \<and> k < j \<longrightarrow> base @ ''_'' @ str_nat k \<in> fst ` set ls"
      proof (intro allI impI)
        fix k assume "tries < k \<and> k < j"
        then have "k = tries + 1 \<or> (tries + 1 < k \<and> k < j)" by auto
        then show "base @ ''_'' @ str_nat k \<in> fst ` set ls"
          using taken j(4) by auto
      qed
      with j step True show ?thesis
        by (intro conjI impI exI [of _ j]) auto
    qed
  qed
qed

lemma generate_id_loop_fresh:
  "generate_id_loop ls base tries suggestion \<notin> fst ` set ls"
proof (cases "suggestion \<in> fst ` set ls")
  case True
  with generate_id_loop_spec [of suggestion ls base tries] obtain j where
    "generate_id_loop ls base tries suggestion = base @ ''_'' @ str_nat j"
    "base @ ''_'' @ str_nat j \<notin> fst ` set ls"
    by blast
  then show ?thesis by simp
next
  case False
  with generate_id_loop_spec [of suggestion ls base tries] show ?thesis by simp
qed

lemma generate_id_fresh: "generate_id slug r n \<notin> set (keys (labels r))"
  by (simp add: generate_id_def keys_def Let_def generate_id_loop_fresh)

lemma generate_id_fresh_map: "map_of (labels r) (generate_id slug r n) = None"
  using generate_id_fresh [of slug r n] by (simp add: key_iff)

subsection \<open>What a successful call leaves behind\<close>

lemma async_create_InrD:
  assumes "async_create cf slug r n c i d = (Inr e, r')"
  shows "map_of (normalized_name_label_idx r) (normalize_label_name cf n) = None"
    and "e = \<lparr>label_id = generate_id slug r n, name = n,
              normalized_name = normalize_label_name cf n,
              description = d, color = c, icon = i\<rparr>"
    and "labels r' = AList.update (generate_id slug r n) e (labels r)"
    and "normalized_name_label_idx r' =
           AList.update (normalize_label_name cf n) (generate_id slug r n)
             (normalized_name_label_idx r)"
    and "calls r' = calls r @ [StoreDelaySave SAVE_DELAY,
           BusFire EVENT_LABEL_REGISTRY_UPDATED
             [(''action'', ''create''), (''label_id'', generate_id slug r n)]]"
proof -
  from assms have g: "async_get_label_by_name cf r n = Inr None"
    by (auto simp: async_create_def Let_def split: sum.splits option.splits)
  then show "map_of (normalized_name_label_idx r) (normalize_label_name cf n) = None"
    by (simp add: get_by_name_Inr_None)
  from assms g show "e = \<lparr>label_id = generate_id slug r n, name = n,
              normalized_name = normalize_label_name cf n,
              description = d, color = c, icon = i\<rparr>"
    by (auto simp: async_create_def Let_def)
  from assms g show "labels r' = AList.update (generate_id slug r n) e (labels r)"
    by (auto simp: async_create_def Let_def async_schedule_save_def bus_async_fire_def)
  from assms g show "normalized_name_label_idx r' =
           AList.update (normalize_label_name cf n) (generate_id slug r n)
             (normalized_name_label_idx r)"
    by (auto simp: async_create_def Let_def async_schedule_save_def bus_async_fire_def)
  from assms g show "calls r' = calls r @ [StoreDelaySave SAVE_DELAY,
           BusFire EVENT_LABEL_REGISTRY_UPDATED
             [(''action'', ''create''), (''label_id'', generate_id slug r n)]]"
    by (auto simp: async_create_def Let_def async_schedule_save_def bus_async_fire_def)
qed

lemma async_create_Inl:
  "fst (async_create cf slug r n c i d) = Inl err \<Longrightarrow> snd (async_create cf slug r n c i d) = r"
  by (auto simp: async_create_def Let_def split: sum.splits option.splits)

lemma async_create_inv:
  assumes inv: "registry_inv r" and ok: "async_create cf slug r n c i d = (Inr e, r')"
  shows "registry_inv r'"
proof (rule registry_invI)
  note c = async_create_InrD [OF ok]
  let ?g = "generate_id slug r n" and ?nn = "normalize_label_name cf n"
  have L: "map_of (labels r') = (map_of (labels r))(?g \<mapsto> e)"
    by (simp add: c(3) update_conv')
  have I: "map_of (normalized_name_label_idx r') = (map_of (normalized_name_label_idx r))(?nn \<mapsto> ?g)"
    by (simp add: c(4) update_conv')
  have ne: "normalized_name e = ?nn" by (simp add: c(2))
  fix lid x assume a: "map_of (labels r') lid = Some x"
  show "map_of (normalized_name_label_idx r') (normalized_name x) = Some lid"
  proof (cases "lid = ?g")
    case True
    with a L have "x = e" by simp
    with True I ne show ?thesis by simp
  next
    case False
    with a L have "map_of (labels r) lid = Some x" by simp
    then have "map_of (normalized_name_label_idx r) (normalized_name x) = Some lid"
      by (rule registry_inv_fwd [OF inv])
    with c(1) I show ?thesis by auto
  qed
next
  note c = async_create_InrD [OF ok]
  let ?g = "generate_id slug r n" and ?nn = "normalize_label_name cf n"
  have L: "map_of (labels r') = (map_of (labels r))(?g \<mapsto> e)"
    by (simp add: c(3) update_conv')
  have I: "map_of (normalized_name_label_idx r') = (map_of (normalized_name_label_idx r))(?nn \<mapsto> ?g)"
    by (simp add: c(4) update_conv')
  have ne: "normalized_name e = ?nn" by (simp add: c(2))
  fix m lid assume a: "map_of (normalized_name_label_idx r') m = Some lid"
  show "\<exists>x. map_of (labels r') lid = Some x \<and> normalized_name x = m"
  proof (cases "m = ?nn")
    case True
    with a I have "lid = ?g" by simp
    with True L ne show ?thesis by simp
  next
    case False
    with a I have "map_of (normalized_name_label_idx r) m = Some lid" by simp
    from registry_inv_bwd [OF inv this] obtain x where
      x: "map_of (labels r) lid = Some x" "normalized_name x = m" by blast
    with generate_id_fresh_map [of r slug n] have "lid \<noteq> ?g" by auto
    with x L show ?thesis by simp
  qed
qed

lemma changed_attrs_same:
  "new_color \<in> {UNDEFINED, Value (color old)} \<Longrightarrow>
   new_description \<in> {UNDEFINED, Value (description old)} \<Longrightarrow>
   new_icon \<in> {UNDEFINED, Value (icon old)} \<Longrightarrow>
   changed_attrs old new_color new_description new_icon = []"
  by (auto simp: changed_attrs_def)

lemma changed_name_same:
  "new_name \<in> {UNDEFINED, Value (name old)} \<Longrightarrow> changed_name cf r old new_name = Inr ([], None)"
  by (auto simp: changed_name_def)

lemma async_delete_Some:
  assumes "map_of (labels r) lid = Some label"
  shows "async_delete r lid =
    (if map_of (normalized_name_label_idx r) (normalized_name label) = None
     then (Inl (KeyError (normalized_name label)),
           \<lparr>labels = AList.delete lid (labels r),
            normalized_name_label_idx = normalized_name_label_idx r,
            calls = calls r @
              [DeviceRegistryClearLabelId lid (labels r, normalized_name_label_idx r),
               EntityRegistryClearLabelId lid (labels r, normalized_name_label_idx r)]\<rparr>)
     else (Inr (),
           \<lparr>labels = AList.delete lid (labels r),
            normalized_name_label_idx =
              AList.delete (normalized_name label) (normalized_name_label_idx r),
            calls = calls r @
              [DeviceRegistryClearLabelId lid (labels r, normalized_name_label_idx r),
               EntityRegistryClearLabelId lid (labels r, normalized_name_label_idx r),
               BusFire EVENT_LABEL_REGISTRY_UPDATED [(''action'', ''remove''), (''label_id'', lid)],
               StoreDelaySave SAVE_DELAY]\<rparr>))"
  using assms
  by (cases r)
     (simp add: async_delete_def remove_label_def clear_label_references_def Let_def
        device_registry_clear_label_id_def entity_registry_clear_label_id_def
        bus_async_fire_def async_schedule_save_def)

lemma async_delete_inv:
  assumes inv: "registry_inv r" and ok: "async_delete r lid = (Inr u, r')"
  shows "registry_inv r'"
proof -
  from ok obtain label where l: "map_of (labels r) lid = Some label"
    by (cases "map_of (labels r) lid") (auto simp: async_delete_def)
  have i: "map_of (normalized_name_label_idx r) (normalized_name label) = Some lid"
    by (rule registry_inv_fwd [OF inv l])
  from ok l i have r': "labels r' = AList.delete lid (labels r)"
    "normalized_name_label_idx r' =
       AList.delete (normalized_name label) (normalized_name_label_idx r)"
    by (auto simp: async_delete_Some)
  have L: "map_of (labels r') = (map_of (labels r))(lid := None)"
    by (simp add: r'(1) delete_conv')
  have I: "map_of (normalized_name_label_idx r') =
      (map_of (normalized_name_label_idx r))(normalized_name label := None)"
    by (simp add: r'(2) delete_conv')
  show ?thesis
  proof (rule registry_invI)
    fix k x assume a: "map_of (labels r') k = Some x"
    then have k: "k \<noteq> lid" "map_of (labels r) k = Some x"
      using L by (auto split: if_splits)
    from registry_inv_fwd [OF inv k(2)]
    have ik: "map_of (normalized_name_label_idx r) (normalized_name x) = Some k" .
    with i k(1) have "normalized_name x \<noteq> normalized_name label" by auto
    with ik I show "map_of (normalized_name_label_idx r') (normalized_name x) = Some k"
      by simp
  next
    fix m k assume a: "map_of (normalized_name_label_idx r') m = Some k"
    then have m: "m \<noteq> normalized_name label" "map_of (normalized_name_label_idx r) m = Some k"
      using I by (auto split: if_splits)
    from registry_inv_bwd [OF inv m(2)] obtain x where
      x: "map_of (labels r) k = Some x" "normalized_name x = m" by blast
    with l m(1) have "k \<noteq> lid" by auto
    with x L show "\<exists>x. map_of (labels r') k = Some x \<and> normalized_name x = m"
      by simp
  qed
qed

lemma async_delete_Inl_inv:
  assumes inv: "registry_inv r" and err: "fst (async_delete r lid) = Inl e"
  shows "snd (async_delete r lid) = r"
proof (cases "map_of (labels r) lid")
  case None
  then show ?thesis by (simp add: async_delete_def)
next
  case (Some label)
  from registry_inv_fwd [OF inv Some] err show ?thesis
    by (simp add: async_delete_Some [OF Some])
qed

subsection \<open>What an update leaves behind\<close>

lemma changed_name_cases:
  assumes "changed_name cf r old new_name = Inr (chs, normalized)"
  shows "(chs = [] \<and> normalized = None \<and> new_name \<in> {UNDEFINED, Value (name old)}) \<or>
    (\<exists>n. new_name = Value n \<and> n \<noteq> name old \<and>
       chs = [Name n, NormalizedName (normalize_label_name cf n)] \<and>
       normalized = Some (normalize_label_name cf n) \<and>
       (normalize_label_name cf n = normalized_name old \<or>
        map_of (normalized_name_label_idx r) (normalize_label_name cf n) = None))"
proof (cases new_name)
  case UNDEFINED
  with assms show ?thesis by (simp add: changed_name_def)
next
  case (Value n)
  show ?thesis
  proof (cases "n = name old")
    case True
    with assms Value show ?thesis by (simp add: changed_name_def)
  next
    case False
    show ?thesis
    proof (cases "normalize_label_name cf n = normalized_name old")
      case True
      with assms Value False show ?thesis by (simp add: changed_name_def Let_def)
    next
      case ne: False
      with assms Value False have "async_get_label_by_name cf r n = Inr None"
        by (auto simp: changed_name_def Let_def split: sum.splits option.splits)
      then have "map_of (normalized_name_label_idx r) (normalize_label_name cf n) = None"
        by (simp add: get_by_name_Inr_None)
      with assms Value False ne show ?thesis
        by (auto simp: changed_name_def Let_def split: sum.splits option.splits)
    qed
  qed
qed

lemma replace_changed_attrs:
  "label_id (dataclasses_replace old (changed_attrs old c d i)) = label_id old"
  "name (dataclasses_replace old (changed_attrs old c d i)) = name old"
  "normalized_name (dataclasses_replace old (changed_attrs old c d i)) = normalized_name old"
  by (cases c; cases d; cases i; simp add: changed_attrs_def dataclasses_replace_def)+

lemma replace_rename:
  "dataclasses_replace old (chs @ [Name n, NormalizedName m]) =
   (dataclasses_replace old chs)\<lparr>name := n, normalized_name := m\<rparr>"
  by (simp add: dataclasses_replace_def)

lemma async_update_no_rename:
  assumes "map_of (labels r) lid = Some old"
    and "changed_name cf r old new_name = Inr ([], None)"
  shows "async_update cf r lid c d i new_name =
    (if changed_attrs old c d i = [] then (Inr old, r)
     else (Inr (dataclasses_replace old (changed_attrs old c d i)),
           \<lparr>labels = AList.update lid (dataclasses_replace old (changed_attrs old c d i)) (labels r),
            normalized_name_label_idx = normalized_name_label_idx r,
            calls = calls r @ [StoreDelaySave SAVE_DELAY,
              BusFire EVENT_LABEL_REGISTRY_UPDATED [(''action'', ''update''), (''label_id'', lid)]]\<rparr>))"
  using assms
  by (cases r)
     (simp add: async_update_def Let_def bus_async_fire_def async_schedule_save_def)

lemma async_update_rename:
  assumes "map_of (labels r) lid = Some old"
    and "changed_name cf r old new_name = Inr ([Name n, NormalizedName m], Some m)"
  shows "async_update cf r lid c d i new_name =
    (case map_of (normalized_name_label_idx r) (normalized_name old) of
       None \<Rightarrow>
         (Inl (KeyError (normalized_name old)),
          r\<lparr>labels := AList.update lid
               ((dataclasses_replace old (changed_attrs old c d i))\<lparr>name := n, normalized_name := m\<rparr>)
               (labels r)\<rparr>)
     | Some popped \<Rightarrow>
         (Inr ((dataclasses_replace old (changed_attrs old c d i))\<lparr>name := n, normalized_name := m\<rparr>),
          \<lparr>labels = AList.update lid
              ((dataclasses_replace old (changed_attrs old c d i))\<lparr>name := n, normalized_name := m\<rparr>)
              (labels r),
           normalized_name_label_idx =
             AList.update m popped (AList.delete (normalized_name old) (normalized_name_label_idx r)),
           calls = calls r @ [StoreDelaySave SAVE_DELAY,
             BusFire EVENT_LABEL_REGISTRY_UPDATED [(''action'', ''update''), (''label_id'', lid)]]\<rparr>))"
  using assms
  by (cases r)
     (simp add: async_update_def Let_def bus_async_fire_def async_schedule_save_def
        replace_rename split: option.splits)

lemma inv_keep_names:
  assumes inv: "registry_inv r" and old: "map_of (labels r) lid = Some old"
    and nn: "normalized_name new = normalized_name old"
    and L: "labels r' = AList.update lid new (labels r)"
    and I: "normalized_name_label_idx r' = normalized_name_label_idx r"
  shows "registry_inv r'"
proof (rule registry_invI)
  have L': "map_of (labels r') = (map_of (labels r))(lid \<mapsto> new)"
    by (simp add: L update_conv')
  fix k x assume a: "map_of (labels r') k = Some x"
  show "map_of (normalized_name_label_idx r') (normalized_name x) = Some k"
  proof (cases "k = lid")
    case True
    with a L' have "x = new" by simp
    with True nn registry_inv_fwd [OF inv old] I show ?thesis by simp
  next
    case False
    with a L' have "map_of (labels r) k = Some x" by simp
    from registry_inv_fwd [OF inv this] I show ?thesis by simp
  qed
next
  have L': "map_of (labels r') = (map_of (labels r))(lid \<mapsto> new)"
    by (simp add: L update_conv')
  fix m k assume "map_of (normalized_name_label_idx r') m = Some k"
  then have "map_of (normalized_name_label_idx r) m = Some k" by (simp add: I)
  from registry_inv_bwd [OF inv this] obtain x where
    x: "map_of (labels r) k = Some x" "normalized_name x = m" by blast
  show "\<exists>x. map_of (labels r') k = Some x \<and> normalized_name x = m"
  proof (cases "k = lid")
    case True
    with x old nn L' show ?thesis by simp
  next
    case False
    with x L' show ?thesis by simp
  qed
qed

lemma inv_rename:
  assumes inv: "registry_inv r" and old: "map_of (labels r) lid = Some old"
    and nn: "normalized_name new = m"
    and free: "m = normalized_name old \<or> map_of (normalized_name_label_idx r) m = None"
    and L: "labels r' = AList.update lid new (labels r)"
    and I: "normalized_name_label_idx r' =
       AList.update m lid (AList.delete (normalized_name old) (normalized_name_label_idx r))"
  shows "registry_inv r'"
proof (rule registry_invI)
  have L': "map_of (labels r') = (map_of (labels r))(lid \<mapsto> new)"
    by (simp add: L update_conv')
  have I': "map_of (normalized_name_label_idx r') =
      ((map_of (normalized_name_label_idx r))(normalized_name old := None))(m \<mapsto> lid)"
    by (simp add: I update_conv' delete_conv')
  have io: "map_of (normalized_name_label_idx r) (normalized_name old) = Some lid"
    by (rule registry_inv_fwd [OF inv old])
  fix k x assume a: "map_of (labels r') k = Some x"
  show "map_of (normalized_name_label_idx r') (normalized_name x) = Some k"
  proof (cases "k = lid")
    case True
    with a L' have "x = new" by simp
    with True nn I' show ?thesis by simp
  next
    case False
    with a L' have "map_of (labels r) k = Some x" by simp
    from registry_inv_fwd [OF inv this]
    have ik: "map_of (normalized_name_label_idx r) (normalized_name x) = Some k" .
    with io False have 1: "normalized_name x \<noteq> normalized_name old" by auto
    with ik free have 2: "normalized_name x \<noteq> m" by auto
    from 1 2 ik I' show ?thesis by simp
  qed
next
  have L': "map_of (labels r') = (map_of (labels r))(lid \<mapsto> new)"
    by (simp add: L update_conv')
  have I': "map_of (normalized_name_label_idx r') =
      ((map_of (normalized_name_label_idx r))(normalized_name old := None))(m \<mapsto> lid)"
    by (simp add: I update_conv' delete_conv')
  fix m' k assume a: "map_of (normalized_name_label_idx r') m' = Some k"
  show "\<exists>x. map_of (labels r') k = Some x \<and> normalized_name x = m'"
  proof (cases "m' = m")
    case True
    with a I' have "k = lid" by simp
    with True nn L' show ?thesis by simp
  next
    case False
    with a I' have m': "m' \<noteq> normalized_name old"
      "map_of (normalized_name_label_idx r) m' = Some k"
      by (auto split: if_splits)
    from registry_inv_bwd [OF inv m'(2)] obtain x where
      x: "map_of (labels r) k = Some x" "normalized_name x = m'" by blast
    with old m'(1) have "k \<noteq> lid" by auto
    with x L' show ?thesis by simp
  qed
qed

text \<open>Under the invariants \<open>async_update\<close> has three outcomes.\<close>

lemma async_update_outcomes:
  assumes inv: "registry_inv r" and old: "map_of (labels r) lid = Some old"
  shows "(\<exists>e. async_update cf r lid c d i new_name = (Inl e, r)) \<or>
     async_update cf r lid c d i new_name = (Inr old, r) \<or>
     (\<exists>new r'. async_update cf r lid c d i new_name = (Inr new, r') \<and>
        registry_inv r' \<and> label_id new = label_id old \<and>
        map_of (labels r') lid = Some new)"
proof (cases "changed_name cf r old new_name")
  case (Inl e)
  with old show ?thesis by (simp add: async_update_def)
next
  case (Inr p)
  obtain chs normalized where p: "p = (chs, normalized)" by (cases p)
  from changed_name_cases [OF Inr [unfolded p]]
  consider (same) "chs = []" "normalized = None"
    | (rename) n where "chs = [Name n, NormalizedName (normalize_label_name cf n)]"
      "normalized = Some (normalize_label_name cf n)"
      "normalize_label_name cf n = normalized_name old \<or>
        map_of (normalized_name_label_idx r) (normalize_label_name cf n) = None"
    by blast
  then show ?thesis
  proof cases
    case same
    with Inr p have cn: "changed_name cf r old new_name = Inr ([], None)" by simp
    let ?new = "dataclasses_replace old (changed_attrs old c d i)"
    show ?thesis
    proof (cases "changed_attrs old c d i = []")
      case True
      then show ?thesis by (simp add: async_update_no_rename [OF old cn])
    next
      case False
      let ?r' = "\<lparr>labels = AList.update lid ?new (labels r),
            normalized_name_label_idx = normalized_name_label_idx r,
            calls = calls r @ [StoreDelaySave SAVE_DELAY,
              BusFire EVENT_LABEL_REGISTRY_UPDATED [(''action'', ''update''), (''label_id'', lid)]]\<rparr>"
      have u: "async_update cf r lid c d i new_name = (Inr ?new, ?r')"
        using False by (simp add: async_update_no_rename [OF old cn])
      have "registry_inv ?r'"
        by (rule inv_keep_names [OF inv old, where new = ?new]) (simp_all add: replace_changed_attrs)
      moreover have "map_of (labels ?r') lid = Some ?new" by (simp add: update_conv')
      ultimately show ?thesis using u by (simp add: replace_changed_attrs)
    qed
  next
    case (rename n)
    note n = rename
    let ?m = "normalize_label_name cf n"
    from Inr p n have cn: "changed_name cf r old new_name = Inr ([Name n, NormalizedName ?m], Some ?m)"
      by simp
    let ?new = "(dataclasses_replace old (changed_attrs old c d i))\<lparr>name := n, normalized_name := ?m\<rparr>"
    let ?r' = "\<lparr>labels = AList.update lid ?new (labels r),
           normalized_name_label_idx =
             AList.update ?m lid (AList.delete (normalized_name old) (normalized_name_label_idx r)),
           calls = calls r @ [StoreDelaySave SAVE_DELAY,
             BusFire EVENT_LABEL_REGISTRY_UPDATED [(''action'', ''update''), (''label_id'', lid)]]\<rparr>"
    have u: "async_update cf r lid c d i new_name = (Inr ?new, ?r')"
      by (simp add: async_update_rename [OF old cn] registry_inv_fwd [OF inv old])
    have "registry_inv ?r'"
      by (rule inv_rename [OF inv old, where new = ?new and m = ?m]) (use n(3) in simp_all)
    moreover have "map_of (labels ?r') lid = Some ?new" by (simp add: update_conv')
    ultimately show ?thesis using u by (simp add: replace_changed_attrs)
  qed
qed

lemma async_update_inv:
  assumes inv: "registry_inv r"
  shows "registry_inv (snd (async_update cf r lid c d i new_name))"
proof (cases "map_of (labels r) lid")
  case None
  with inv show ?thesis by (simp add: async_update_def)
next
  case (Some old)
  from async_update_outcomes [OF inv Some, of cf c d i new_name] inv show ?thesis
    by auto
qed

lemma async_update_Inl_inv:
  assumes inv: "registry_inv r" and err: "fst (async_update cf r lid c d i new_name) = Inl e"
  shows "snd (async_update cf r lid c d i new_name) = r"
proof (cases "map_of (labels r) lid")
  case None
  then show ?thesis by (simp add: async_update_def)
next
  case (Some old)
  from async_update_outcomes [OF inv Some, of cf c d i new_name] err show ?thesis
    by auto
qed

lemma apply_operation_inv:
  assumes inv: "registry_inv r" and ok: "apply_operation cf slug r op = (Inr u, r')"
  shows "registry_inv r'"
proof (cases op)
  case (Create n c i d)
  with ok obtain e where "async_create cf slug r n c i d = (Inr e, r')"
    by (cases "async_create cf slug r n c i d"; cases "fst (async_create cf slug r n c i d)") auto
  then show ?thesis by (rule async_create_inv [OF inv])
next
  case (Update lid c d i n)
  with ok have "r' = snd (async_update cf r lid c d i n)"
    by (cases "async_update cf r lid c d i n") auto
  then show ?thesis by (simp add: async_update_inv [OF inv])
next
  case (Delete lid)
  with ok show ?thesis by (auto intro: async_delete_inv [OF inv])
qed

lemma run_operations_inv:
  "registry_inv r \<Longrightarrow> run_operations cf slug ops r = Inr r' \<Longrightarrow> registry_inv r'"
proof (induction ops arbitrary: r)
  case Nil
  then show ?case by simp
next
  case (Cons op ops)
  obtain res r1 where a: "apply_operation cf slug r op = (res, r1)"
    by (cases "apply_operation cf slug r op")
  with Cons.prems(2) obtain u where "res = Inr u" "run_operations cf slug ops r1 = Inr r'"
    by (cases res) auto
  with a Cons.prems(1) Cons.IH [of r1] show ?case
    by (auto dest: apply_operation_inv)
qed

subsection \<open>Further facts about the methods\<close>

lemma async_create_valid:
  assumes "async_get_label_by_name cf r n = Inr None"
  shows "\<exists>e r'. async_create cf slug r n c i d = (Inr e, r')"
  using assms by (simp add: async_create_def Let_def)

lemma async_update_ValueError:
  assumes "fst (async_update cf r lid c d i new_name) = Inl (ValueError m)"
  shows "snd (async_update cf r lid c d i new_name) = r"
proof (cases "map_of (labels r) lid")
  case None
  then show ?thesis by (simp add: async_update_def)
next
  case (Some old)
  show ?thesis
  proof (cases "changed_name cf r old new_name")
    case (Inl e)
    with Some show ?thesis by (simp add: async_update_def)
  next
    case (Inr p)
    obtain chs normalized where p: "p = (chs, normalized)" by (cases p)
    from assms Some Inr p show ?thesis
      by (auto simp: async_update_def Let_def split: if_splits option.splits)
  qed
qed

lemma changed_name_in_use:
  assumes "normalize_label_name cf n \<noteq> normalized_name old" and "n \<noteq> name old"
    and "map_of (normalized_name_label_idx r) (normalize_label_name cf n) = Some k"
    and "map_of (labels r) k = Some e"
  shows "changed_name cf r old (Value n) = Inl (name_in_use n (normalize_label_name cf n))"
  using assms by (simp add: changed_name_def Let_def get_by_name_Some [OF assms(3,4)])

lemma changed_name_free:
  assumes "n \<noteq> name old"
    and "normalize_label_name cf n = normalized_name old \<or>
         map_of (normalized_name_label_idx r) (normalize_label_name cf n) = None"
  shows "changed_name cf r old (Value n) =
     Inr ([Name n, NormalizedName (normalize_label_name cf n)], Some (normalize_label_name cf n))"
  using assms by (auto simp: changed_name_def Let_def get_by_name_None)

lemma data_to_save_rows: "data_to_save r = [(''labels'', map stored_row (async_list_labels r))]"
  by (simp add: data_to_save_def stored_row_def async_list_labels_def)

lemma load_labels_rows:
  "load_labels cf (map stored_row es) ls r =
     (Inr (fold (\<lambda>e. AList.update (label_id e)
                  (e\<lparr>normalized_name := normalize_label_name cf (name e)\<rparr>)) es ls),
      r\<lparr>normalized_name_label_idx :=
          fold (\<lambda>e. AList.update (normalize_label_name cf (name e)) (label_id e)) es
            (normalized_name_label_idx r)\<rparr>)"
proof (induction es arbitrary: ls r)
  case Nil
  show ?case by simp
next
  case (Cons e es)
  have row: "getitem (stored_row e) ''name'' = Inr (Some (name e))"
    "getitem (stored_row e) ''color'' = Inr (color e)"
    "getitem (stored_row e) ''description'' = Inr (description e)"
    "getitem (stored_row e) ''icon'' = Inr (icon e)"
    "getitem (stored_row e) ''label_id'' = Inr (Some (label_id e))"
    by (simp_all add: getitem_def stored_row_def)
  have e: "\<lparr>label_id = label_id e, name = name e,
      normalized_name = normalize_label_name cf (name e),
      description = description e, color = color e, icon = icon e\<rparr> =
      e\<lparr>normalized_name := normalize_label_name cf (name e)\<rparr>"
    by (cases e) simp
  show ?case
    by (simp add: row e Cons.IH Let_def)
qed

lemma update_fresh: "k \<notin> fst ` set al \<Longrightarrow> AList.update k v al = al @ [(k, v)]"
  by (induction al) auto

lemma fold_update_fresh:
  "distinct (map fst xs) \<Longrightarrow> fst ` set xs \<inter> fst ` set ys = {} \<Longrightarrow>
   fold (\<lambda>p. AList.update (fst p) (snd p)) xs ys = ys @ xs"
proof (induction xs arbitrary: ys)
  case Nil
  show ?case by simp
next
  case (Cons x xs)
  from Cons.prems have f: "fst x \<notin> fst ` set ys" by auto
  have "fold (\<lambda>p. AList.update (fst p) (snd p)) (x # xs) ys =
        fold (\<lambda>p. AList.update (fst p) (snd p)) xs (ys @ [x])"
    using f by (simp add: update_fresh)
  also have "\<dots> = (ys @ [x]) @ xs"
    using Cons.prems by (intro Cons.IH) auto
  finally show ?case by simp
qed

lemma loaded_labels:
  assumes "distinct (keys (labels r))" and "entries_derived cf r"
  shows "fold (\<lambda>e. AList.update (label_id e)
            (e\<lparr>normalized_name := normalize_label_name cf (name e)\<rparr>))
           (async_list_labels r) [] = labels r"
proof -
  have "fold (\<lambda>e. AList.update (label_id e)
            (e\<lparr>normalized_name := normalize_label_name cf (name e)\<rparr>))
           (map snd (labels r)) [] =
        fold (\<lambda>p. AList.update (fst p) (snd p)) (labels r) []"
    unfolding fold_map
  proof (rule fold_cong [OF refl refl])
    fix p assume "p \<in> set (labels r)"
    with assms(2) have "label_id (snd p) = fst p"
      "normalized_name (snd p) = normalize_label_name cf (name (snd p))"
      by (auto simp: entries_derived_def)
    then show "((\<lambda>e. AList.update (label_id e)
            (e\<lparr>normalized_name := normalize_label_name cf (name e)\<rparr>)) \<circ> snd) p =
          AList.update (fst p) (snd p)"
      by (cases "snd p") (simp add: fun_eq_iff)
  qed
  also have "\<dots> = labels r"
    using assms(1) fold_update_fresh [of "labels r" "[]"] by (simp add: keys_def)
  finally show ?thesis by (simp add: async_list_labels_def)
qed

lemma rebuilt_index_cases:
  "map_of (fold (\<lambda>p. AList.update (normalized_name (snd p)) (fst p)) xs acc) n = map_of acc n \<or>
   (\<exists>p \<in> set xs. normalized_name (snd p) = n \<and>
      map_of (fold (\<lambda>p. AList.update (normalized_name (snd p)) (fst p)) xs acc) n = Some (fst p))"
proof (induction xs arbitrary: acc)
  case Nil
  show ?case by simp
next
  case (Cons x xs)
  let ?acc = "AList.update (normalized_name (snd x)) (fst x) acc"
  from Cons.IH [of ?acc] show ?case
  proof
    assume a: "map_of (fold (\<lambda>p. AList.update (normalized_name (snd p)) (fst p)) xs ?acc) n =
        map_of ?acc n"
    show ?thesis
    proof (cases "normalized_name (snd x) = n")
      case True
      with a show ?thesis by (auto simp: update_conv')
    next
      case False
      with a show ?thesis by (simp add: update_conv')
    qed
  next
    assume "\<exists>p \<in> set xs. normalized_name (snd p) = n \<and>
      map_of (fold (\<lambda>p. AList.update (normalized_name (snd p)) (fst p)) xs ?acc) n = Some (fst p)"
    then show ?thesis by auto
  qed
qed

lemma rebuilt_index_hit:
  "p \<in> set xs \<Longrightarrow>
   \<exists>q \<in> set xs. normalized_name (snd q) = normalized_name (snd p) \<and>
     map_of (fold (\<lambda>p. AList.update (normalized_name (snd p)) (fst p)) xs acc)
       (normalized_name (snd p)) = Some (fst q)"
proof (induction xs arbitrary: acc)
  case Nil
  then show ?case by simp
next
  case (Cons x xs)
  let ?acc = "AList.update (normalized_name (snd x)) (fst x) acc"
  let ?n = "normalized_name (snd p)"
  from rebuilt_index_cases [of xs ?acc ?n] show ?case
  proof
    assume a: "map_of (fold (\<lambda>p. AList.update (normalized_name (snd p)) (fst p)) xs ?acc) ?n =
        map_of ?acc ?n"
    show ?thesis
    proof (cases "p = x")
      case True
      with a show ?thesis by (auto simp: update_conv')
    next
      case False
      with Cons.prems have "p \<in> set xs" by simp
      from Cons.IH [OF this, of ?acc] show ?thesis by auto
    qed
  next
    assume "\<exists>q \<in> set xs. normalized_name (snd q) = ?n \<and>
      map_of (fold (\<lambda>p. AList.update (normalized_name (snd p)) (fst p)) xs ?acc) ?n = Some (fst q)"
    then show ?thesis by auto
  qed
qed

lemma loaded_index:
  assumes "distinct (keys (labels r))" and "entries_derived cf r" and "registry_inv r"
  shows "map_of (fold (\<lambda>e. AList.update (normalize_label_name cf (name e)) (label_id e))
           (async_list_labels r) []) = map_of (normalized_name_label_idx r)"
proof -
  let ?f = "fold (\<lambda>p. AList.update (normalized_name (snd p)) (fst p)) (labels r) []"
  have eq: "fold (\<lambda>e. AList.update (normalize_label_name cf (name e)) (label_id e))
           (async_list_labels r) [] = ?f"
    unfolding async_list_labels_def fold_map
  proof (rule fold_cong [OF refl refl])
    fix p assume "p \<in> set (labels r)"
    with assms(2) have "label_id (snd p) = fst p"
      "normalized_name (snd p) = normalize_label_name cf (name (snd p))"
      by (auto simp: entries_derived_def)
    then show "((\<lambda>e. AList.update (normalize_label_name cf (name e)) (label_id e)) \<circ> snd) p =
        AList.update (normalized_name (snd p)) (fst p)"
      by simp
  qed
  have mem: "map_of (labels r) (fst p) = Some (snd p)" if "p \<in> set (labels r)" for p
    using that assms(1) by (simp add: keys_def)
  have "map_of ?f n = map_of (normalized_name_label_idx r) n" for n
  proof (cases "map_of (normalized_name_label_idx r) n")
    case None
    from rebuilt_index_cases [of "labels r" "[]" n] show ?thesis
    proof
      assume "map_of ?f n = map_of [] n"
      with None show ?thesis by simp
    next
      assume "\<exists>p \<in> set (labels r). normalized_name (snd p) = n \<and> map_of ?f n = Some (fst p)"
      then obtain p where p: "p \<in> set (labels r)" "normalized_name (snd p) = n" by blast
      from registry_inv_fwd [OF assms(3) mem [OF p(1)]] p(2) None show ?thesis by simp
    qed
  next
    case (Some k)
    from registry_inv_bwd [OF assms(3) Some] obtain e where
      e: "map_of (labels r) k = Some e" "normalized_name e = n" by blast
    then have "(k, e) \<in> set (labels r)" by (auto dest: map_of_SomeD)
    from rebuilt_index_hit [OF this, of "[]"] e(2) obtain q where
      q: "q \<in> set (labels r)" "normalized_name (snd q) = n" "map_of ?f n = Some (fst q)"
      by auto
    from registry_inv_fwd [OF assms(3) mem [OF q(1)]] q(2) Some have "fst q = k" by simp
    with q(3) Some show ?thesis by simp
  qed
  then show ?thesis unfolding eq by (rule ext)
qed

lemma set_update_subset: "set (AList.update k v al) \<subseteq> insert (k, v) (set al)"
  by (induction al) auto

lemma set_delete_subset: "set (AList.delete k al) \<subseteq> set al"
  by (auto simp: AList.delete_eq)

lemma distinct_keys_update: "distinct (keys al) \<Longrightarrow> distinct (keys (AList.update k v al))"
  by (simp add: keys_def distinct_update)

lemma distinct_keys_delete: "distinct (keys al) \<Longrightarrow> distinct (keys (AList.delete k al))"
  by (simp add: keys_def distinct_delete)

lemma entries_derived_update:
  assumes "entries_derived cf r" and "label_id e = k"
    and "normalized_name e = normalize_label_name cf (name e)"
    and "labels r' = AList.update k e (labels r)"
  shows "entries_derived cf r'"
  unfolding entries_derived_def
proof (rule ballI)
  fix p assume "p \<in> set (labels r')"
  with assms(4) set_update_subset [of k e "labels r"] have "p = (k, e) \<or> p \<in> set (labels r)"
    by auto
  with assms(1-3) show "case p of (lid, e) \<Rightarrow>
      label_id e = lid \<and> normalized_name e = normalize_label_name cf (name e)"
    by (auto simp: entries_derived_def)
qed

lemma entries_derived_delete:
  assumes "entries_derived cf r" and "labels r' = AList.delete k (labels r)"
  shows "entries_derived cf r'"
  using assms set_delete_subset [of k "labels r"]
  by (auto simp: entries_derived_def)

lemma wellformed_init: "wellformed cf init"
  by (simp add: wellformed_def init_def keys_def entries_derived_def registry_inv_def
      index_consistent_def equal_cardinality_def names_unique_def)

lemma async_create_wellformed:
  assumes wf: "wellformed cf r" and ok: "async_create cf slug r n c i d = (Inr e, r')"
  shows "wellformed cf r'"
proof -
  note c = async_create_InrD [OF ok]
  have "entries_derived cf r'"
    by (rule entries_derived_update [where e = e and k = "generate_id slug r n" and r = r])
       (use wf c in \<open>simp_all add: wellformed_def\<close>)
  moreover have "registry_inv r'"
    using wf ok by (auto simp: wellformed_def intro: async_create_inv)
  ultimately show ?thesis
    using wf by (simp add: wellformed_def c(3,4) distinct_keys_update)
qed

lemma async_delete_wellformed:
  assumes wf: "wellformed cf r" and ok: "async_delete r lid = (Inr u, r')"
  shows "wellformed cf r'"
proof -
  from ok obtain label where l: "map_of (labels r) lid = Some label"
    by (cases "map_of (labels r) lid") (auto simp: async_delete_def)
  from ok have r': "labels r' = AList.delete lid (labels r)"
    "normalized_name_label_idx r' =
       AList.delete (normalized_name label) (normalized_name_label_idx r)"
    by (auto simp: async_delete_Some [OF l] split: if_splits)
  have "entries_derived cf r'"
    using wf r'(1) by (auto simp: wellformed_def intro: entries_derived_delete)
  moreover have "registry_inv r'"
    using wf ok by (auto simp: wellformed_def intro: async_delete_inv)
  ultimately show ?thesis
    using wf by (simp add: wellformed_def r' distinct_keys_delete)
qed

lemma async_update_wellformed:
  assumes wf: "wellformed cf r"
  shows "wellformed cf (snd (async_update cf r lid c d i new_name))"
proof (cases "map_of (labels r) lid")
  case None
  with wf show ?thesis by (simp add: async_update_def)
next
  case (Some old)
  from wf have inv: "registry_inv r" by (simp add: wellformed_def)
  have ri: "registry_inv (snd (async_update cf r lid c d i new_name))"
    by (rule async_update_inv [OF inv])
  from Some have "(lid, old) \<in> set (labels r)" by (rule map_of_SomeD)
  with wf have od: "label_id old = lid" "normalized_name old = normalize_label_name cf (name old)"
    by (auto simp: wellformed_def entries_derived_def)
  let ?attrs = "changed_attrs old c d i"
  show ?thesis
  proof (cases "changed_name cf r old new_name")
    case (Inl e)
    with Some wf show ?thesis by (simp add: async_update_def)
  next
    case (Inr p)
    obtain chs normalized where p: "p = (chs, normalized)" by (cases p)
    from changed_name_cases [OF Inr [unfolded p]]
    consider (same) "chs = []" "normalized = None"
      | (rename) n where "chs = [Name n, NormalizedName (normalize_label_name cf n)]"
        "normalized = Some (normalize_label_name cf n)"
      by blast
    then show ?thesis
    proof cases
      case same
      with Inr p have cn: "changed_name cf r old new_name = Inr ([], None)" by simp
      show ?thesis
      proof (cases "?attrs = []")
        case True
        with wf show ?thesis by (simp add: async_update_no_rename [OF Some cn])
      next
        case False
        let ?new = "dataclasses_replace old ?attrs"
        let ?r' = "snd (async_update cf r lid c d i new_name)"
        have L: "labels ?r' = AList.update lid ?new (labels r)"
          and I: "normalized_name_label_idx ?r' = normalized_name_label_idx r"
          using False by (simp_all add: async_update_no_rename [OF Some cn])
        have "entries_derived cf ?r'"
          by (rule entries_derived_update [where e = ?new and k = lid and r = r])
             (use wf od L in \<open>simp_all add: wellformed_def replace_changed_attrs\<close>)
        with wf ri show ?thesis
          by (simp add: wellformed_def L I distinct_keys_update)
      qed
    next
      case (rename n)
      let ?m = "normalize_label_name cf n"
      from Inr p rename have cn:
        "changed_name cf r old new_name = Inr ([Name n, NormalizedName ?m], Some ?m)"
        by simp
      let ?new = "(dataclasses_replace old ?attrs)\<lparr>name := n, normalized_name := ?m\<rparr>"
      let ?r' = "snd (async_update cf r lid c d i new_name)"
      have io: "map_of (normalized_name_label_idx r) (normalized_name old) = Some lid"
        by (rule registry_inv_fwd [OF inv Some])
      have L: "labels ?r' = AList.update lid ?new (labels r)"
        and I: "normalized_name_label_idx ?r' =
          AList.update ?m lid (AList.delete (normalized_name old) (normalized_name_label_idx r))"
        by (simp_all add: async_update_rename [OF Some cn] io)
      have "entries_derived cf ?r'"
        by (rule entries_derived_update [where e = ?new and k = lid and r = r])
           (use wf od L in \<open>simp_all add: wellformed_def replace_changed_attrs\<close>)
      with wf ri show ?thesis
        by (simp add: wellformed_def L I distinct_keys_update distinct_keys_delete)
    qed
  qed
qed

lemma apply_operation_wellformed:
  assumes wf: "wellformed cf r" and ok: "apply_operation cf slug r op = (Inr u, r')"
  shows "wellformed cf r'"
proof (cases op)
  case (Create n c i d)
  with ok obtain e where "async_create cf slug r n c i d = (Inr e, r')"
    by (cases "async_create cf slug r n c i d"; cases "fst (async_create cf slug r n c i d)") auto
  then show ?thesis by (rule async_create_wellformed [OF wf])
next
  case (Update lid c d i n)
  with ok have "r' = snd (async_update cf r lid c d i n)"
    by (cases "async_update cf r lid c d i n") auto
  then show ?thesis by (simp add: async_update_wellformed [OF wf])
next
  case (Delete lid)
  with ok show ?thesis by (auto intro: async_delete_wellformed [OF wf])
qed

text \<open>Every registry the methods build from a new one is well formed.\<close>

lemma run_operations_wellformed:
  "wellformed cf r \<Longrightarrow> run_operations cf slug ops r = Inr r' \<Longrightarrow> wellformed cf r'"
proof (induction ops arbitrary: r)
  case Nil
  then show ?case by simp
next
  case (Cons op ops)
  obtain res r1 where a: "apply_operation cf slug r op = (res, r1)"
    by (cases "apply_operation cf slug r op")
  with Cons.prems(2) obtain u where "res = Inr u" "run_operations cf slug ops r1 = Inr r'"
    by (cases res) auto
  with a Cons.prems(1) Cons.IH [of r1] show ?case
    by (auto dest: apply_operation_wellformed)
qed

lemma lookup_after_create:
  assumes "async_create cf slug r n c i d = (Inr e, r')"
    and "normalize_label_name cf m = normalize_label_name cf n"
  shows "async_get_label_by_name cf r' m = Inr (Some e)"
proof -
  note c = async_create_InrD [OF assms(1)]
  have "map_of (normalized_name_label_idx r') (normalize_label_name cf m) =
      Some (generate_id slug r n)"
    using assms(2) by (simp add: c(4) update_conv')
  moreover have "map_of (labels r') (generate_id slug r n) = Some e"
    by (simp add: c(3) update_conv')
  ultimately show ?thesis by (rule get_by_name_Some)
qed

lemma night_mode_lookups:
  "normalize_label_name casefold_ascii ''nightmode'' = normalize_label_name casefold_ascii ''Night Mode''"
  "normalize_label_name casefold_ascii ''NIGHTMODE'' = normalize_label_name casefold_ascii ''Night Mode''"
  by code_simp+

section \<open>The claims\<close>

text \<open>
  C1. From a registry in which the three invariants hold, any sequence of
  \<^verbatim>\<open>async_create\<close>, \<^verbatim>\<open>async_update\<close> and \<^verbatim>\<open>async_delete\<close> calls that all return
  without an exception leads to a registry in which they hold again: the index entry
  of every label's normalised name is the label's id, the two dictionaries have as many
  keys as each other, and no two labels share a normalised name.
\<close>

theorem invariants_preserved:
  "registry_inv r \<Longrightarrow> run_operations cf slug ops r = Inr r' \<Longrightarrow>
   index_consistent r' \<and> equal_cardinality r' \<and> names_unique r'"
  using run_operations_inv [of r cf slug ops r'] by (simp add: registry_inv_def)

theorem invariants_preserved_witness:
  "registry_inv init \<and>
   run_operations casefold_ascii slugify_ascii
     [Create ''Foo'' None None None, Create ''Night Mode'' (Some ''blue'') None None,
      Update ''foo'' UNDEFINED UNDEFINED UNDEFINED (Value ''Bar''),
      Delete ''night_mode''] init = Inr after_four_calls \<and>
   index_consistent after_four_calls \<and> equal_cardinality after_four_calls \<and>
   names_unique after_four_calls"
proof -
  have i: "registry_inv init" by code_simp
  have run: "run_operations casefold_ascii slugify_ascii
     [Create ''Foo'' None None None, Create ''Night Mode'' (Some ''blue'') None None,
      Update ''foo'' UNDEFINED UNDEFINED UNDEFINED (Value ''Bar''),
      Delete ''night_mode''] init = Inr after_four_calls"
    by code_simp
  from invariants_preserved [OF i run] i run show ?thesis by simp
qed

text \<open>
  C2. \<^verbatim>\<open>async_create\<close> with a name whose normalised form is the normalised name of a
  label in the registry raises \<^verbatim>\<open>ValueError\<close> (the module's duplicate-name error) and
  changes nothing; and a second \<^verbatim>\<open>async_create\<close> whose name normalises like the name
  of a first, successful one raises it, as "foo" after "Foo" does.
\<close>

theorem create_duplicate_name:
  "(index_consistent r \<and> async_get_label r lid = Some e \<and>
      normalize_label_name cf n = normalized_name e \<longrightarrow>
    async_create cf slug r n c i d =
      (Inl (ValueError (''The name '' @ n @ '' ('' @ normalize_label_name cf n @
         '') is already in use'')), r)) \<and>
   (async_create cf slug r n1 c1 i1 d1 = (Inr e1, r1) \<and>
      normalize_label_name cf n2 = normalize_label_name cf n1 \<longrightarrow>
    async_create cf slug r1 n2 c2 i2 d2 =
      (Inl (ValueError (''The name '' @ n2 @ '' ('' @ normalize_label_name cf n2 @
         '') is already in use'')), r1))"
proof (intro conjI impI)
  assume a: "index_consistent r \<and> async_get_label r lid = Some e \<and>
      normalize_label_name cf n = normalized_name e"
  then have l: "map_of (labels r) lid = Some e" by (simp add: async_get_label_def)
  with a have "map_of (normalized_name_label_idx r) (normalize_label_name cf n) = Some lid"
    by (simp add: index_consistent_iff)
  from get_by_name_Some [OF this l] show "async_create cf slug r n c i d =
      (Inl (ValueError (''The name '' @ n @ '' ('' @ normalize_label_name cf n @
         '') is already in use'')), r)"
    by (simp add: async_create_def name_in_use_def)
next
  assume a: "async_create cf slug r n1 c1 i1 d1 = (Inr e1, r1) \<and>
      normalize_label_name cf n2 = normalize_label_name cf n1"
  then have ok: "async_create cf slug r n1 c1 i1 d1 = (Inr e1, r1)" by simp
  note c = async_create_InrD [OF ok]
  have "map_of (normalized_name_label_idx r1) (normalize_label_name cf n2) =
      Some (generate_id slug r n1)"
    using a by (simp add: c(4) update_conv')
  moreover have "map_of (labels r1) (generate_id slug r n1) = Some e1"
    by (simp add: c(3) update_conv')
  ultimately have "async_get_label_by_name cf r1 n2 = Inr (Some e1)"
    by (rule get_by_name_Some)
  then show "async_create cf slug r1 n2 c2 i2 d2 =
      (Inl (ValueError (''The name '' @ n2 @ '' ('' @ normalize_label_name cf n2 @
         '') is already in use'')), r1)"
    by (simp add: async_create_def name_in_use_def)
qed

theorem create_duplicate_name_witness:
  "async_create casefold_ascii slugify_ascii init ''Foo'' None None None =
     (Inr foo, after_create_foo) \<and>
   async_create casefold_ascii slugify_ascii after_create_foo ''foo'' None None None =
     (Inl (ValueError ''The name foo (foo) is already in use''), after_create_foo) \<and>
   index_consistent example_registry \<and>
   async_get_label example_registry ''night_mode'' = Some night_mode \<and>
   async_create casefold_ascii slugify_ascii example_registry ''NIGHT mode'' None None None =
     (Inl (ValueError ''The name NIGHT mode (nightmode) is already in use''), example_registry)"
proof -
  have first: "async_create casefold_ascii slugify_ascii init ''Foo'' None None None =
     (Inr foo, after_create_foo)"
    by code_simp
  have same: "normalize_label_name casefold_ascii ''foo'' = normalize_label_name casefold_ascii ''Foo''"
    by code_simp
  have nf: "normalize_label_name casefold_ascii ''foo'' = ''foo''" by code_simp
  have ic: "index_consistent example_registry" by code_simp
  have g: "async_get_label example_registry ''night_mode'' = Some night_mode" by code_simp
  have nn: "normalize_label_name casefold_ascii ''NIGHT mode'' = normalized_name night_mode"
    by code_simp
  have nn': "normalized_name night_mode = ''nightmode''" by code_simp
  have second: "async_create casefold_ascii slugify_ascii after_create_foo ''foo'' None None None =
     (Inl (ValueError ''The name foo (foo) is already in use''), after_create_foo)"
    using create_duplicate_name [THEN conjunct2, rule_format, OF conjI [OF first same],
        where ?c2.0 = None and ?i2.0 = None and ?d2.0 = None]
    by (simp add: nf)
  have dup: "async_create casefold_ascii slugify_ascii example_registry ''NIGHT mode'' None None None =
     (Inl (ValueError ''The name NIGHT mode (nightmode) is already in use''), example_registry)"
    using create_duplicate_name [THEN conjunct1, rule_format, OF conjI [OF ic conjI [OF g nn]],
        where slug = slugify_ascii and c = None and i = None and d = None]
    by (simp add: nn nn')
  from first second ic g dup show ?thesis by simp
qed

text \<open>
  C3. The id \<^verbatim>\<open>_generate_id\<close> returns is the slug of the name when no label has that
  id, and otherwise the first of \<open>slug_2, slug_3, \<dots>\<close> that no label has; it is never an
  id of the registry; it depends on the name and the labels only; and it is the id of
  the label a valid \<^verbatim>\<open>async_create\<close> returns and stores.
\<close>

theorem generated_id:
  "(slug n \<notin> set (keys (labels r)) \<longrightarrow> generate_id slug r n = slug n) \<and>
   (slug n \<in> set (keys (labels r)) \<longrightarrow>
      (\<exists>j\<ge>2. generate_id slug r n = slug n @ ''_'' @ str_nat j \<and>
         (\<forall>k. 2 \<le> k \<and> k < j \<longrightarrow> slug n @ ''_'' @ str_nat k \<in> set (keys (labels r))))) \<and>
   generate_id slug r n \<notin> set (keys (labels r)) \<and>
   (labels r2 = labels r \<longrightarrow> generate_id slug r2 n = generate_id slug r n) \<and>
   (async_get_label_by_name cf r n = Inr None \<longrightarrow>
      (\<exists>e r'. async_create cf slug r n c i d = (Inr e, r') \<and>
         label_id e = generate_id slug r n \<and>
         async_get_label r (label_id e) = None \<and>
         async_get_label r' (label_id e) = Some e))"
proof (intro conjI impI)
  note spec = generate_id_loop_spec [of "slug n" "labels r" "slug n" 1]
  show "slug n \<notin> set (keys (labels r)) \<Longrightarrow> generate_id slug r n = slug n"
    using spec by (simp add: generate_id_def keys_def Let_def)
  show "generate_id slug r n \<notin> set (keys (labels r))"
    by (rule generate_id_fresh)
  show "labels r2 = labels r \<Longrightarrow> generate_id slug r2 n = generate_id slug r n"
    by (simp add: generate_id_def)
  show "\<exists>j\<ge>2. generate_id slug r n = slug n @ ''_'' @ str_nat j \<and>
         (\<forall>k. 2 \<le> k \<and> k < j \<longrightarrow> slug n @ ''_'' @ str_nat k \<in> set (keys (labels r)))"
    if "slug n \<in> set (keys (labels r))"
  proof -
    from that spec obtain j where j: "1 < j"
      "generate_id_loop (labels r) (slug n) 1 (slug n) = slug n @ ''_'' @ str_nat j"
      "\<forall>k. 1 < k \<and> k < j \<longrightarrow> slug n @ ''_'' @ str_nat k \<in> fst ` set (labels r)"
      unfolding keys_def set_map by blast
    have "2 \<le> j" using j(1) by simp
    moreover have "generate_id slug r n = slug n @ ''_'' @ str_nat j"
      using j(2) by (simp add: generate_id_def Let_def)
    moreover have "\<forall>k. 2 \<le> k \<and> k < j \<longrightarrow> slug n @ ''_'' @ str_nat k \<in> set (keys (labels r))"
      using j(3) by (simp add: keys_def)
    ultimately show ?thesis by blast
  qed
  show "\<exists>e r'. async_create cf slug r n c i d = (Inr e, r') \<and>
         label_id e = generate_id slug r n \<and>
         async_get_label r (label_id e) = None \<and>
         async_get_label r' (label_id e) = Some e"
    if "async_get_label_by_name cf r n = Inr None"
  proof -
    from async_create_valid [OF that] obtain e r' where
      ok: "async_create cf slug r n c i d = (Inr e, r')" by blast
    note c = async_create_InrD [OF ok]
    have id: "label_id e = generate_id slug r n" by (simp add: c(2))
    have "async_get_label r (label_id e) = None"
      by (simp add: id async_get_label_def generate_id_fresh_map)
    moreover have "async_get_label r' (label_id e) = Some e"
      by (simp add: id async_get_label_def c(3) update_conv')
    ultimately show ?thesis using ok id by blast
  qed
qed

theorem generated_id_witness:
  "slugify_ascii ''Work!'' \<in> set (keys (labels example_registry)) \<and>
   generate_id slugify_ascii example_registry ''Work!'' = ''work_2'' \<and>
   ''work_2'' \<notin> set (keys (labels example_registry)) \<and>
   slugify_ascii ''Home'' \<notin> set (keys (labels example_registry)) \<and>
   generate_id slugify_ascii example_registry ''Home'' = ''home'' \<and>
   async_get_label_by_name casefold_ascii example_registry ''Work!'' = Inr None \<and>
   fst (async_create casefold_ascii slugify_ascii example_registry ''Work!'' None None None) =
     Inr work_2 \<and>
   async_get_label example_registry ''work_2'' = None"
proof -
  have s: "slugify_ascii ''Work!'' = ''work''" "slugify_ascii ''Home'' = ''home''" by code_simp+
  have k: "set (keys (labels example_registry)) = {''night_mode'', ''work''}" by code_simp
  have g: "generate_id slugify_ascii example_registry ''Work!'' = ''work_2''" by code_simp
  have f: "async_get_label_by_name casefold_ascii example_registry ''Work!'' = Inr None"
    by code_simp
  have c: "fst (async_create casefold_ascii slugify_ascii example_registry ''Work!'' None None None) =
     Inr work_2" by code_simp
  note t = generated_id [of slugify_ascii "''Work!''" example_registry example_registry
      casefold_ascii None None None]
  note h = generated_id [of slugify_ascii "''Home''" example_registry example_registry
      casefold_ascii None None None]
  have 1: "''work_2'' \<notin> set (keys (labels example_registry))"
    using t g by simp
  have 2: "generate_id slugify_ascii example_registry ''Home'' = ''home''"
    using h by (simp add: s k)
  have 3: "async_get_label example_registry ''work_2'' = None"
    using t f c g by auto
  show ?thesis
    using 1 2 3 g f c by (simp add: s k)
qed

text \<open>
  C4. For a label id that exists, \<^verbatim>\<open>async_update\<close> called with every given argument
  equal to the label's current value (or with no argument given at all) returns the
  existing entry and leaves the registry as it was: the same dictionaries, and no call
  on the store or the bus added.
\<close>

theorem update_without_change:
  assumes "async_get_label r lid = Some old"
    and "new_color \<in> {UNDEFINED, Value (color old)}"
    and "new_description \<in> {UNDEFINED, Value (description old)}"
    and "new_icon \<in> {UNDEFINED, Value (icon old)}"
    and "new_name \<in> {UNDEFINED, Value (name old)}"
  shows "async_update cf r lid new_color new_description new_icon new_name = (Inr old, r)"
  using assms(1)
  by (simp add: async_update_def async_get_label_def changed_attrs_same [OF assms(2,3,4)]
      changed_name_same [OF assms(5)])

theorem update_without_change_witness:
  "async_get_label example_registry ''night_mode'' = Some night_mode \<and>
   async_update casefold_ascii example_registry ''night_mode''
     (Value (Some ''blue'')) UNDEFINED (Value None) (Value ''Night Mode'') =
   (Inr night_mode, example_registry) \<and>
   async_update casefold_ascii example_registry ''night_mode''
     UNDEFINED UNDEFINED UNDEFINED UNDEFINED =
   (Inr night_mode, example_registry)"
proof -
  have h: "async_get_label example_registry ''night_mode'' = Some night_mode"
    by (simp add: async_get_label_def example_registry_def)
  have c: "color night_mode = Some ''blue''" "icon night_mode = None"
    "name night_mode = ''Night Mode''"
    by (simp_all add: night_mode_def)
  show ?thesis
    using h
      update_without_change [OF h, of "Value (Some ''blue'')" UNDEFINED "Value None"
        "Value ''Night Mode''" casefold_ascii]
      update_without_change [OF h, of UNDEFINED UNDEFINED UNDEFINED UNDEFINED casefold_ascii]
    by (simp add: c)
qed

text \<open>
  C5. For a label that exists, in a registry that satisfies the invariants and in which
  the label's normalised name is the normalisation of its name,
  \<^verbatim>\<open>async_update\<close> with a name raises \<^verbatim>\<open>ValueError\<close> (and changes nothing) exactly when
  the normalised new name differs from the label's own and is the normalised name of
  another label. In every other case the call succeeds, the label keeps its id and its
  key, and the index maps the normalised new name to that id; the old normalised name
  is no longer a key of the index when it differs from the new one, the index is the
  same dictionary as before when it does not, and no other key of the index changes.
\<close>

theorem rename_checks_other_labels:
  assumes "registry_inv r" and "async_get_label r lid = Some old"
    and "normalized_name old = normalize_label_name cf (name old)"
  shows "(normalize_label_name cf n \<noteq> normalized_name old \<and>
       (\<exists>k e. k \<noteq> lid \<and> async_get_label r k = Some e \<and>
          normalized_name e = normalize_label_name cf n) \<longrightarrow>
      async_update cf r lid c d i (Value n) =
        (Inl (ValueError (''The name '' @ n @ '' ('' @ normalize_label_name cf n @
           '') is already in use'')), r)) \<and>
     (\<not> (normalize_label_name cf n \<noteq> normalized_name old \<and>
       (\<exists>k e. k \<noteq> lid \<and> async_get_label r k = Some e \<and>
          normalized_name e = normalize_label_name cf n)) \<longrightarrow>
      (\<exists>new r'. async_update cf r lid c d i (Value n) = (Inr new, r') \<and>
         label_id new = label_id old \<and> name new = n \<and>
         normalized_name new = normalize_label_name cf n \<and>
         async_get_label r' lid = Some new \<and>
         map_of (normalized_name_label_idx r') (normalize_label_name cf n) = Some lid \<and>
         (normalize_label_name cf n \<noteq> normalized_name old \<longrightarrow>
            map_of (normalized_name_label_idx r') (normalized_name old) = None) \<and>
         (normalize_label_name cf n = normalized_name old \<longrightarrow>
            map_of (normalized_name_label_idx r') = map_of (normalized_name_label_idx r)) \<and>
         (\<forall>m. m \<noteq> normalize_label_name cf n \<and> m \<noteq> normalized_name old \<longrightarrow>
            map_of (normalized_name_label_idx r') m = map_of (normalized_name_label_idx r) m)))"
proof (intro conjI impI)
  let ?nn = "normalize_label_name cf n"
  from assms(2) have old: "map_of (labels r) lid = Some old" by (simp add: async_get_label_def)
  have io: "map_of (normalized_name_label_idx r) (normalized_name old) = Some lid"
    by (rule registry_inv_fwd [OF assms(1) old])
  assume dup: "?nn \<noteq> normalized_name old \<and>
       (\<exists>k e. k \<noteq> lid \<and> async_get_label r k = Some e \<and> normalized_name e = ?nn)"
  then obtain k e where ke: "map_of (labels r) k = Some e" "normalized_name e = ?nn"
    by (auto simp: async_get_label_def)
  from registry_inv_fwd [OF assms(1) ke(1)] ke(2)
  have ik: "map_of (normalized_name_label_idx r) ?nn = Some k" by simp
  from dup assms(3) have ne: "n \<noteq> name old" by auto
  from changed_name_in_use [OF _ ne ik ke(1)] dup
  have "changed_name cf r old (Value n) = Inl (name_in_use n ?nn)" by simp
  with old show "async_update cf r lid c d i (Value n) =
        (Inl (ValueError (''The name '' @ n @ '' ('' @ ?nn @ '') is already in use'')), r)"
    by (simp add: async_update_def name_in_use_def)
next
  let ?nn = "normalize_label_name cf n"
  let ?I = "map_of (normalized_name_label_idx r)"
  from assms(2) have old: "map_of (labels r) lid = Some old" by (simp add: async_get_label_def)
  have io: "?I (normalized_name old) = Some lid"
    by (rule registry_inv_fwd [OF assms(1) old])
  assume nodup: "\<not> (?nn \<noteq> normalized_name old \<and>
       (\<exists>k e. k \<noteq> lid \<and> async_get_label r k = Some e \<and> normalized_name e = ?nn))"
  have free: "?nn = normalized_name old \<or> ?I ?nn = None"
  proof (cases "?nn = normalized_name old")
    case True
    then show ?thesis by simp
  next
    case False
    have "?I ?nn = None"
    proof (rule ccontr)
      assume "?I ?nn \<noteq> None"
      then obtain k where k: "?I ?nn = Some k" by auto
      from registry_inv_bwd [OF assms(1) k] obtain e where
        e: "map_of (labels r) k = Some e" "normalized_name e = ?nn" by blast
      with old False have "k \<noteq> lid" by auto
      with e False nodup show False by (auto simp: async_get_label_def)
    qed
    then show ?thesis by simp
  qed
  let ?attrs = "changed_attrs old c d i"
  show "\<exists>new r'. async_update cf r lid c d i (Value n) = (Inr new, r') \<and>
         label_id new = label_id old \<and> name new = n \<and>
         normalized_name new = ?nn \<and>
         async_get_label r' lid = Some new \<and>
         map_of (normalized_name_label_idx r') ?nn = Some lid \<and>
         (?nn \<noteq> normalized_name old \<longrightarrow>
            map_of (normalized_name_label_idx r') (normalized_name old) = None) \<and>
         (?nn = normalized_name old \<longrightarrow>
            map_of (normalized_name_label_idx r') = ?I) \<and>
         (\<forall>m. m \<noteq> ?nn \<and> m \<noteq> normalized_name old \<longrightarrow>
            map_of (normalized_name_label_idx r') m = ?I m)"
  proof (cases "n = name old")
    case True
    then have cn: "changed_name cf r old (Value n) = Inr ([], None)"
      by (simp add: changed_name_def)
    from True assms(3) have same: "?nn = normalized_name old" by simp
    show ?thesis
    proof (cases "?attrs = []")
      case e: True
      have "async_update cf r lid c d i (Value n) = (Inr old, r)"
        using e by (simp add: async_update_no_rename [OF old cn])
      with True same io assms(2) show ?thesis by simp
    next
      case ne: False
      let ?new = "dataclasses_replace old ?attrs"
      let ?r' = "\<lparr>labels = AList.update lid ?new (labels r),
            normalized_name_label_idx = normalized_name_label_idx r,
            calls = calls r @ [StoreDelaySave SAVE_DELAY,
              BusFire EVENT_LABEL_REGISTRY_UPDATED [(''action'', ''update''), (''label_id'', lid)]]\<rparr>"
      have u: "async_update cf r lid c d i (Value n) = (Inr ?new, ?r')"
        using ne by (simp add: async_update_no_rename [OF old cn])
      have "async_get_label ?r' lid = Some ?new"
        by (simp add: async_get_label_def update_conv')
      with u True same io show ?thesis
        by (simp add: replace_changed_attrs)
    qed
  next
    case False
    let ?new = "(dataclasses_replace old ?attrs)\<lparr>name := n, normalized_name := ?nn\<rparr>"
    let ?r' = "\<lparr>labels = AList.update lid ?new (labels r),
           normalized_name_label_idx =
             AList.update ?nn lid (AList.delete (normalized_name old) (normalized_name_label_idx r)),
           calls = calls r @ [StoreDelaySave SAVE_DELAY,
             BusFire EVENT_LABEL_REGISTRY_UPDATED [(''action'', ''update''), (''label_id'', lid)]]\<rparr>"
    have u: "async_update cf r lid c d i (Value n) = (Inr ?new, ?r')"
      by (simp add: async_update_rename [OF old changed_name_free [OF False free]] io)
    have I': "map_of (normalized_name_label_idx ?r') = (?I(normalized_name old := None))(?nn \<mapsto> lid)"
      by (simp add: update_conv' delete_conv')
    have g: "async_get_label ?r' lid = Some ?new"
      by (simp add: async_get_label_def update_conv')
    have same: "map_of (normalized_name_label_idx ?r') = ?I" if "?nn = normalized_name old"
      unfolding I' using that io by auto
    show ?thesis
      apply (rule exI [of _ ?new], rule exI [of _ ?r'])
      apply (intro conjI impI allI)
              apply (rule u)
             apply (simp add: replace_changed_attrs)
            apply simp
           apply simp
          apply (rule g)
         apply (simp only: I' fun_upd_same)
        apply (simp only: I', simp)
       apply (erule same)
      apply (simp only: I', simp)
      done
  qed
qed

theorem rename_checks_other_labels_witness:
  "registry_inv example_registry \<and> async_get_label example_registry ''work'' = Some work \<and>
   normalized_name work = normalize_label_name casefold_ascii (name work) \<and>
   async_update casefold_ascii example_registry ''work'' UNDEFINED UNDEFINED UNDEFINED
     (Value ''NIGHT MODE'') =
     (Inl (ValueError ''The name NIGHT MODE (nightmode) is already in use''), example_registry) \<and>
   fst (async_update casefold_ascii example_registry ''work'' UNDEFINED UNDEFINED UNDEFINED
     (Value ''Job'')) = Inr (work\<lparr>name := ''Job'', normalized_name := ''job''\<rparr>) \<and>
   map_of (normalized_name_label_idx (snd (async_update casefold_ascii example_registry ''work''
     UNDEFINED UNDEFINED UNDEFINED (Value ''Job'')))) ''job'' = Some ''work'' \<and>
   map_of (normalized_name_label_idx (snd (async_update casefold_ascii example_registry ''work''
     UNDEFINED UNDEFINED UNDEFINED (Value ''Job'')))) ''work'' = None \<and>
   fst (async_update casefold_ascii example_registry ''work'' UNDEFINED UNDEFINED UNDEFINED
     (Value ''W ork'')) = Inr (work\<lparr>name := ''W ork''\<rparr>) \<and>
   map_of (normalized_name_label_idx (snd (async_update casefold_ascii example_registry ''work''
     UNDEFINED UNDEFINED UNDEFINED (Value ''W ork'')))) =
     map_of (normalized_name_label_idx example_registry)"
proof -
  have a: "registry_inv example_registry" "async_get_label example_registry ''work'' = Some work"
    "normalized_name work = normalize_label_name casefold_ascii (name work)"
    by code_simp+
  note t = rename_checks_other_labels [OF a]
  have n: "normalize_label_name casefold_ascii ''NIGHT MODE'' = ''nightmode''"
    "normalize_label_name casefold_ascii ''Job'' = ''job''"
    "normalize_label_name casefold_ascii ''W ork'' = ''work''"
    "normalized_name work = ''work''"
    by code_simp+
  have other: "''night_mode'' \<noteq> ''work'' \<and>
      async_get_label example_registry ''night_mode'' = Some night_mode \<and>
      normalized_name night_mode = ''nightmode''"
    by code_simp
  have dup: "normalize_label_name casefold_ascii ''NIGHT MODE'' \<noteq> normalized_name work \<and>
      (\<exists>k e. k \<noteq> ''work'' \<and> async_get_label example_registry k = Some e \<and>
         normalized_name e = normalize_label_name casefold_ascii ''NIGHT MODE'')"
    unfolding n
  proof (intro conjI exI [of _ "''night_mode''"] exI [of _ night_mode])
    show "''nightmode'' \<noteq> ''work''" by simp
  qed (use other in simp_all)
  have 1: "async_update casefold_ascii example_registry ''work'' UNDEFINED UNDEFINED UNDEFINED
     (Value ''NIGHT MODE'') =
     (Inl (ValueError ''The name NIGHT MODE (nightmode) is already in use''), example_registry)"
    using t [THEN conjunct1, THEN mp, OF dup, of UNDEFINED UNDEFINED UNDEFINED]
    by (simp add: n)
  have job: "fst (async_update casefold_ascii example_registry ''work'' UNDEFINED UNDEFINED UNDEFINED
     (Value ''Job'')) = Inr (work\<lparr>name := ''Job'', normalized_name := ''job''\<rparr>)"
    by code_simp
  have nojob: "\<not> (normalize_label_name casefold_ascii ''Job'' \<noteq> normalized_name work \<and>
      (\<exists>k e. k \<noteq> ''work'' \<and> async_get_label example_registry k = Some e \<and>
         normalized_name e = normalize_label_name casefold_ascii ''Job''))"
  proof
    assume "normalize_label_name casefold_ascii ''Job'' \<noteq> normalized_name work \<and>
      (\<exists>k e. k \<noteq> ''work'' \<and> async_get_label example_registry k = Some e \<and>
         normalized_name e = normalize_label_name casefold_ascii ''Job'')"
    then obtain k e where ke: "k \<noteq> ''work''" "map_of (labels example_registry) k = Some e"
      "normalized_name e = ''job''"
      unfolding n async_get_label_def by (elim conjE exE)
    from map_of_SomeD [OF ke(2)] ke(1) have "e = night_mode"
      by (simp add: example_registry_def)
    with ke(3) show False by (simp add: night_mode_def)
  qed
  from t [THEN conjunct2, THEN mp, OF nojob, of UNDEFINED UNDEFINED UNDEFINED]
  obtain new r' where j: "async_update casefold_ascii example_registry ''work''
      UNDEFINED UNDEFINED UNDEFINED (Value ''Job'') = (Inr new, r')"
    "map_of (normalized_name_label_idx r') (normalize_label_name casefold_ascii ''Job'') = Some ''work''"
    "normalize_label_name casefold_ascii ''Job'' \<noteq> normalized_name work \<longrightarrow>
       map_of (normalized_name_label_idx r') (normalized_name work) = None"
    by blast
  have 2: "map_of (normalized_name_label_idx (snd (async_update casefold_ascii example_registry ''work''
     UNDEFINED UNDEFINED UNDEFINED (Value ''Job'')))) ''job'' = Some ''work'' \<and>
   map_of (normalized_name_label_idx (snd (async_update casefold_ascii example_registry ''work''
     UNDEFINED UNDEFINED UNDEFINED (Value ''Job'')))) ''work'' = None"
    using j by (simp add: n)
  have work: "fst (async_update casefold_ascii example_registry ''work'' UNDEFINED UNDEFINED UNDEFINED
     (Value ''W ork'')) = Inr (work\<lparr>name := ''W ork''\<rparr>)"
    by code_simp
  have nowork: "\<not> (normalize_label_name casefold_ascii ''W ork'' \<noteq> normalized_name work \<and>
      (\<exists>k e. k \<noteq> ''work'' \<and> async_get_label example_registry k = Some e \<and>
         normalized_name e = normalize_label_name casefold_ascii ''W ork''))"
    by (simp add: n)
  from t [THEN conjunct2, THEN mp, OF nowork, of UNDEFINED UNDEFINED UNDEFINED]
  obtain new2 r2 where w: "async_update casefold_ascii example_registry ''work''
      UNDEFINED UNDEFINED UNDEFINED (Value ''W ork'') = (Inr new2, r2)"
    "normalize_label_name casefold_ascii ''W ork'' = normalized_name work \<longrightarrow>
       map_of (normalized_name_label_idx r2) = map_of (normalized_name_label_idx example_registry)"
    by blast
  have 3: "map_of (normalized_name_label_idx (snd (async_update casefold_ascii example_registry ''work''
     UNDEFINED UNDEFINED UNDEFINED (Value ''W ork'')))) =
     map_of (normalized_name_label_idx example_registry)"
    using w by (simp add: n)
  from a 1 job 2 work 3 show ?thesis by simp
qed

text \<open>
  C6. For a well-formed registry (as every registry built by the methods is), the
  snapshot \<^verbatim>\<open>_data_to_save\<close> writes holds one dictionary per label with exactly the keys
  color, description, icon, label\_id and name, and a new registry loaded from it has
  the same labels, normalised names included and in the same order, and an index that
  is the same dictionary as the one saved from.
\<close>

theorem reload_of_snapshot:
  assumes "wellformed cf r"
  shows "\<exists>rows r'. data_to_save r = [(''labels'', rows)] \<and>
     rows = map stored_row (async_list_labels r) \<and>
     (\<forall>row \<in> set rows. map fst row = [''color'', ''description'', ''icon'', ''label_id'', ''name'']) \<and>
     load_registry cf (Some (data_to_save r)) = (Inr (), r') \<and>
     labels r' = labels r \<and>
     map_of (normalized_name_label_idx r') = map_of (normalized_name_label_idx r)"
proof -
  from assms have wf: "distinct (keys (labels r))" "entries_derived cf r" "registry_inv r"
    by (simp_all add: wellformed_def)
  let ?es = "async_list_labels r"
  let ?ls = "fold (\<lambda>e. AList.update (label_id e)
                  (e\<lparr>normalized_name := normalize_label_name cf (name e)\<rparr>)) ?es []"
  let ?ix = "fold (\<lambda>e. AList.update (normalize_label_name cf (name e)) (label_id e)) ?es []"
  let ?r' = "\<lparr>labels = ?ls, normalized_name_label_idx = ?ix, calls = []\<rparr>"
  have "load_registry cf (Some (data_to_save r)) = (Inr (), ?r')"
    by (simp add: load_registry_def async_load_def data_to_save_rows getitem_def
        load_labels_rows init_def)
  moreover have "labels ?r' = labels r"
    by (simp add: loaded_labels [OF wf(1,2)])
  moreover have "map_of (normalized_name_label_idx ?r') = map_of (normalized_name_label_idx r)"
    by (simp add: loaded_index [OF wf])
  moreover have "\<forall>row \<in> set (map stored_row ?es).
      map fst row = [''color'', ''description'', ''icon'', ''label_id'', ''name'']"
    by (auto simp: stored_row_def)
  ultimately show ?thesis
    using data_to_save_rows [of r] by blast
qed

theorem reload_of_snapshot_witness:
  "wellformed casefold_ascii example_registry \<and>
   data_to_save example_registry =
     [(''labels'',
       [[(''color'', Some ''blue''), (''description'', None), (''icon'', None),
         (''label_id'', Some ''night_mode''), (''name'', Some ''Night Mode'')],
        [(''color'', None), (''description'', Some ''office''), (''icon'', None),
         (''label_id'', Some ''work''), (''name'', Some ''Work'')]])] \<and>
   labels (snd (load_registry casefold_ascii (Some (data_to_save example_registry)))) =
     labels example_registry \<and>
   map_of (normalized_name_label_idx
     (snd (load_registry casefold_ascii (Some (data_to_save example_registry))))) =
     map_of (normalized_name_label_idx example_registry)"
proof -
  have wf: "wellformed casefold_ascii example_registry" by code_simp
  have d: "data_to_save example_registry =
     [(''labels'',
       [[(''color'', Some ''blue''), (''description'', None), (''icon'', None),
         (''label_id'', Some ''night_mode''), (''name'', Some ''Night Mode'')],
        [(''color'', None), (''description'', Some ''office''), (''icon'', None),
         (''label_id'', Some ''work''), (''name'', Some ''Work'')]])]"
    by code_simp
  from reload_of_snapshot [OF wf] obtain r' where
    "load_registry casefold_ascii (Some (data_to_save example_registry)) = (Inr (), r')"
    "labels r' = labels example_registry"
    "map_of (normalized_name_label_idx r') = map_of (normalized_name_label_idx example_registry)"
    by blast
  with wf d show ?thesis by simp
qed

text \<open>
  C7. \<^verbatim>\<open>async_delete\<close> of a label that exists calls \<^verbatim>\<open>async_clear_label_id\<close> exactly
  once on the device registry and once on the entity registry, in that order, and the
  dictionaries logged with each of the two calls still hold the label, under its id and
  under its normalised name: both calls are made before the label is removed. The event
  and the save follow, and afterwards the label is in neither dictionary: it is found
  neither by id nor by any name, nor is it in the list of labels.
\<close>

theorem delete_clears_references_first:
  assumes "index_consistent r" and "distinct (keys (labels r))"
    and "async_get_label r lid = Some label"
  shows "\<exists>r' seen. async_delete r lid = (Inr (), r') \<and>
        calls r' = calls r @
          [DeviceRegistryClearLabelId lid seen,
           EntityRegistryClearLabelId lid seen,
           BusFire EVENT_LABEL_REGISTRY_UPDATED [(''action'', ''remove''), (''label_id'', lid)],
           StoreDelaySave SAVE_DELAY] \<and>
        seen = (labels r, normalized_name_label_idx r) \<and>
        map_of (fst seen) lid = Some label \<and>
        map_of (snd seen) (normalized_name label) = Some lid \<and>
        async_get_label r' lid = None \<and>
        map_of (normalized_name_label_idx r') (normalized_name label) = None \<and>
        (\<forall>m. async_get_label_by_name cf r' m \<noteq> Inr (Some label)) \<and>
        (\<forall>m. normalize_label_name cf m = normalized_name label \<longrightarrow>
           async_get_label_by_name cf r' m = Inr None) \<and>
        label \<notin> set (async_list_labels r')"
proof -
  from assms(3) have l: "map_of (labels r) lid = Some label" by (simp add: async_get_label_def)
  from assms(1) l have i: "map_of (normalized_name_label_idx r) (normalized_name label) = Some lid"
    by (simp add: index_consistent_iff)
  let ?seen = "(labels r, normalized_name_label_idx r)"
  let ?r' = "\<lparr>labels = AList.delete lid (labels r),
            normalized_name_label_idx =
              AList.delete (normalized_name label) (normalized_name_label_idx r),
            calls = calls r @
              [DeviceRegistryClearLabelId lid ?seen,
               EntityRegistryClearLabelId lid ?seen,
               BusFire EVENT_LABEL_REGISTRY_UPDATED [(''action'', ''remove''), (''label_id'', lid)],
               StoreDelaySave SAVE_DELAY]\<rparr>"
  have d: "async_delete r lid = (Inr (), ?r')"
    using i by (simp add: async_delete_Some [OF l])
  have L: "map_of (labels ?r') = (map_of (labels r))(lid := None)"
    by (simp add: delete_conv')
  have other: "k = lid" if "map_of (labels r) k = Some label" for k
    using that assms(1) i by (simp add: index_consistent_iff)
  have 1: "async_get_label ?r' lid = None"
    by (simp add: async_get_label_def delete_conv')
  have 2: "async_get_label_by_name cf ?r' m \<noteq> Inr (Some label)" for m
  proof
    assume "async_get_label_by_name cf ?r' m = Inr (Some label)"
    then obtain k where "map_of (labels ?r') k = Some label"
      by (auto simp: async_get_label_by_name_def Let_def simp del: LabelRegistry.simps
          split: option.splits)
    with L have "k \<noteq> lid" "map_of (labels r) k = Some label"
      by (auto split: if_splits)
    with other show False by simp
  qed
  have 3: "async_get_label_by_name cf ?r' m = Inr None"
    if "normalize_label_name cf m = normalized_name label" for m
    using that by (intro get_by_name_None) (simp add: delete_conv')
  have 4: "label \<notin> set (async_list_labels ?r')"
  proof
    assume "label \<in> set (async_list_labels ?r')"
    then obtain k where k: "(k, label) \<in> set (AList.delete lid (labels r))"
      by (auto simp: async_list_labels_def)
    then have "k \<noteq> lid" "(k, label) \<in> set (labels r)"
      by (auto simp: AList.delete_eq)
    with assms(2) have "k \<noteq> lid" "map_of (labels r) k = Some label"
      by (simp_all add: keys_def)
    with other show False by simp
  qed
  have 5: "map_of (normalized_name_label_idx ?r') (normalized_name label) = None"
    by (simp add: delete_conv')
  have 6: "calls ?r' = calls r @
          [DeviceRegistryClearLabelId lid ?seen,
           EntityRegistryClearLabelId lid ?seen,
           BusFire EVENT_LABEL_REGISTRY_UPDATED [(''action'', ''remove''), (''label_id'', lid)],
           StoreDelaySave SAVE_DELAY]"
    by simp
  have 7: "map_of (fst ?seen) lid = Some label"
    "map_of (snd ?seen) (normalized_name label) = Some lid"
    using l i by simp_all
  show ?thesis
  proof (intro exI [of _ ?r'] exI [of _ ?seen] conjI allI impI)
    show "async_delete r lid = (Inr (), ?r')" by (rule d)
    show "?seen = (labels r, normalized_name_label_idx r)" by (rule refl)
  qed (use 1 2 3 4 5 6 7 in blast)+
qed

theorem delete_clears_references_first_witness:
  "index_consistent example_registry \<and> distinct (keys (labels example_registry)) \<and>
   async_get_label example_registry ''work'' = Some work \<and>
   async_delete example_registry ''work'' =
     (Inr (),
      \<lparr>labels = [(''night_mode'', night_mode)],
       normalized_name_label_idx = [(''nightmode'', ''night_mode'')],
       calls =
         [DeviceRegistryClearLabelId ''work''
            ([(''night_mode'', night_mode), (''work'', work)],
             [(''nightmode'', ''night_mode''), (''work'', ''work'')]),
          EntityRegistryClearLabelId ''work''
            ([(''night_mode'', night_mode), (''work'', work)],
             [(''nightmode'', ''night_mode''), (''work'', ''work'')]),
          BusFire ''label_registry_updated'' [(''action'', ''remove''), (''label_id'', ''work'')],
          StoreDelaySave 10]\<rparr>) \<and>
   async_get_label (snd (async_delete example_registry ''work'')) ''work'' = None \<and>
   async_get_label_by_name casefold_ascii (snd (async_delete example_registry ''work'')) ''WORK'' =
     Inr None \<and>
   work \<notin> set (async_list_labels (snd (async_delete example_registry ''work'')))"
proof -
  have a: "index_consistent example_registry" "distinct (keys (labels example_registry))"
    "async_get_label example_registry ''work'' = Some work"
    by code_simp+
  have n: "normalize_label_name casefold_ascii ''WORK'' = normalized_name work" by code_simp
  have run: "async_delete example_registry ''work'' =
     (Inr (),
      \<lparr>labels = [(''night_mode'', night_mode)],
       normalized_name_label_idx = [(''nightmode'', ''night_mode'')],
       calls =
         [DeviceRegistryClearLabelId ''work''
            ([(''night_mode'', night_mode), (''work'', work)],
             [(''nightmode'', ''night_mode''), (''work'', ''work'')]),
          EntityRegistryClearLabelId ''work''
            ([(''night_mode'', night_mode), (''work'', work)],
             [(''nightmode'', ''night_mode''), (''work'', ''work'')]),
          BusFire ''label_registry_updated'' [(''action'', ''remove''), (''label_id'', ''work'')],
          StoreDelaySave 10]\<rparr>)"
    by code_simp
  from delete_clears_references_first [OF a, of casefold_ascii] n obtain r' where
    r': "async_delete example_registry ''work'' = (Inr (), r')"
    "async_get_label r' ''work'' = None"
    "async_get_label_by_name casefold_ascii r' ''WORK'' = Inr None"
    "work \<notin> set (async_list_labels r')"
    by blast
  have s: "snd (async_delete example_registry ''work'') = r'" by (simp add: r'(1))
  from a run r'(2-4) show ?thesis unfolding s by simp
qed

text \<open>
  C8. A label created with the name "Night", tab, "Mode" is not found under
  "nightmode", although the two names are equal once case-folded and stripped of
  whitespace: \<^verbatim>\<open>normalize_label_name\<close> removes the space character only, so the index
  key keeps the tab.
\<close>

theorem tab_is_not_removed:
  "spec_normalized_name casefold_ascii ''nightmode'' =
     spec_normalized_name casefold_ascii night_tab_mode \<and>
   normalize_label_name casefold_ascii night_tab_mode = ''night'' @ [CHR 0x09] @ ''mode'' \<and>
   fst (async_create casefold_ascii slugify_ascii init night_tab_mode None None None) =
     Inr \<lparr>label_id = ''night_mode'', name = night_tab_mode,
          normalized_name = ''night'' @ [CHR 0x09] @ ''mode'',
          description = None, color = None, icon = None\<rparr> \<and>
   async_get_label_by_name casefold_ascii
     (snd (async_create casefold_ascii slugify_ascii init night_tab_mode None None None))
     ''nightmode'' = Inr None"
  by code_simp

text \<open>
  C9. For a label id that is not a key of \<^verbatim>\<open>self.labels\<close>, \<^verbatim>\<open>async_update\<close> and
  \<^verbatim>\<open>async_delete\<close> each raise \<^verbatim>\<open>KeyError\<close> for that id (the module's not-found error),
  whatever the other arguments are.
\<close>

theorem update_delete_unknown_id:
  "async_get_label r lid = None \<Longrightarrow>
   async_update cf r lid new_color new_description new_icon new_name = (Inl (KeyError lid), r) \<and>
   async_delete r lid = (Inl (KeyError lid), r)"
  by (simp add: async_get_label_def async_update_def async_delete_def)

theorem update_delete_unknown_id_witness:
  "async_get_label example_registry ''home'' = None \<and>
   async_update casefold_ascii example_registry ''home'' UNDEFINED UNDEFINED UNDEFINED
     (Value ''House'') = (Inl (KeyError ''home''), example_registry) \<and>
   async_delete example_registry ''home'' = (Inl (KeyError ''home''), example_registry)"
proof -
  have h: "async_get_label example_registry ''home'' = None"
    by (simp add: async_get_label_def example_registry_def)
  show ?thesis
    using h update_delete_unknown_id [OF h, of casefold_ascii UNDEFINED UNDEFINED UNDEFINED
        "Value ''House''"]
    by simp
qed

text \<open>
  C10. A call that fails leaves the registry as it was, the dictionaries and the calls
  made on the collaborators alike: \<^verbatim>\<open>async_create\<close> whatever it raises,
  \<^verbatim>\<open>async_update\<close> when it raises \<^verbatim>\<open>ValueError\<close> (the name is in use),
  \<^verbatim>\<open>async_update\<close> and \<^verbatim>\<open>async_delete\<close> when the id is unknown; and in a registry
  that satisfies the invariants these are the only failures, so there any failing
  \<^verbatim>\<open>async_update\<close> or \<^verbatim>\<open>async_delete\<close> changes nothing.
\<close>

theorem failure_changes_nothing:
  "(fst (async_create cf slug r n c i d) = Inl e1 \<longrightarrow>
      snd (async_create cf slug r n c i d) = r) \<and>
   (fst (async_update cf r lid uc ud ui un) = Inl (ValueError m) \<longrightarrow>
      snd (async_update cf r lid uc ud ui un) = r) \<and>
   (async_get_label r lid = None \<longrightarrow>
      async_update cf r lid uc ud ui un = (Inl (KeyError lid), r) \<and>
      async_delete r lid = (Inl (KeyError lid), r)) \<and>
   (registry_inv r \<and> fst (async_update cf r lid uc ud ui un) = Inl e2 \<longrightarrow>
      snd (async_update cf r lid uc ud ui un) = r) \<and>
   (registry_inv r \<and> fst (async_delete r lid) = Inl e3 \<longrightarrow>
      snd (async_delete r lid) = r)"
proof (intro conjI impI)
  show "fst (async_create cf slug r n c i d) = Inl e1 \<Longrightarrow> snd (async_create cf slug r n c i d) = r"
    by (rule async_create_Inl)
  show "fst (async_update cf r lid uc ud ui un) = Inl (ValueError m) \<Longrightarrow>
      snd (async_update cf r lid uc ud ui un) = r"
    by (rule async_update_ValueError)
  show "async_get_label r lid = None \<Longrightarrow> async_update cf r lid uc ud ui un = (Inl (KeyError lid), r)"
    by (simp add: async_get_label_def async_update_def)
  show "async_get_label r lid = None \<Longrightarrow> async_delete r lid = (Inl (KeyError lid), r)"
    by (simp add: async_get_label_def async_delete_def)
  show "registry_inv r \<and> fst (async_update cf r lid uc ud ui un) = Inl e2 \<Longrightarrow>
      snd (async_update cf r lid uc ud ui un) = r"
    by (auto intro: async_update_Inl_inv)
  show "registry_inv r \<and> fst (async_delete r lid) = Inl e3 \<Longrightarrow> snd (async_delete r lid) = r"
    by (auto intro: async_delete_Inl_inv)
qed

theorem failure_changes_nothing_witness:
  "registry_inv example_registry \<and>
   async_create casefold_ascii slugify_ascii example_registry ''night mode'' None None None =
     (Inl (ValueError ''The name night mode (nightmode) is already in use''), example_registry) \<and>
   async_update casefold_ascii example_registry ''work'' UNDEFINED UNDEFINED UNDEFINED
     (Value ''NIGHT MODE'') =
     (Inl (ValueError ''The name NIGHT MODE (nightmode) is already in use''), example_registry) \<and>
   async_get_label example_registry ''home'' = None \<and>
   async_update casefold_ascii example_registry ''home'' (Value None) UNDEFINED UNDEFINED UNDEFINED =
     (Inl (KeyError ''home''), example_registry) \<and>
   async_delete example_registry ''home'' = (Inl (KeyError ''home''), example_registry)"
proof -
  have inv: "registry_inv example_registry" by code_simp
  have c: "fst (async_create casefold_ascii slugify_ascii example_registry ''night mode''
      None None None) = Inl (ValueError ''The name night mode (nightmode) is already in use'')"
    by code_simp
  have u: "fst (async_update casefold_ascii example_registry ''work'' UNDEFINED UNDEFINED UNDEFINED
     (Value ''NIGHT MODE'')) = Inl (ValueError ''The name NIGHT MODE (nightmode) is already in use'')"
    by code_simp
  have g: "async_get_label example_registry ''home'' = None" by code_simp
  have d: "fst (async_delete example_registry ''home'') = Inl (KeyError ''home'')" by code_simp
  note t1 = failure_changes_nothing [where cf = casefold_ascii and slug = slugify_ascii
      and r = example_registry and n = "''night mode''" and c = None and i = None and d = None
      and ?e1.0 = "ValueError ''The name night mode (nightmode) is already in use''"
      and lid = "''work''" and uc = UNDEFINED and ud = UNDEFINED and ui = UNDEFINED
      and un = "Value ''NIGHT MODE''"
      and m = "''The name NIGHT MODE (nightmode) is already in use''"
      and ?e2.0 = "ValueError ''The name NIGHT MODE (nightmode) is already in use''"
      and ?e3.0 = "KeyError ''work''"]
  note t2 = failure_changes_nothing [where cf = casefold_ascii and slug = slugify_ascii
      and r = example_registry and n = "''night mode''" and c = None and i = None and d = None
      and ?e1.0 = "ValueError ''The name night mode (nightmode) is already in use''"
      and lid = "''home''" and uc = "Value None" and ud = UNDEFINED and ui = UNDEFINED
      and un = UNDEFINED and m = "''x''"
      and ?e2.0 = "KeyError ''home''" and ?e3.0 = "KeyError ''home''"]
  have 1: "async_create casefold_ascii slugify_ascii example_registry ''night mode'' None None None =
     (Inl (ValueError ''The name night mode (nightmode) is already in use''), example_registry)"
    using t1 c by (simp add: prod_eq_iff)
  have 2: "async_update casefold_ascii example_registry ''work'' UNDEFINED UNDEFINED UNDEFINED
     (Value ''NIGHT MODE'') =
     (Inl (ValueError ''The name NIGHT MODE (nightmode) is already in use''), example_registry)"
    using t1 u inv by (simp add: prod_eq_iff)
  have 3: "async_update casefold_ascii example_registry ''home'' (Value None) UNDEFINED UNDEFINED UNDEFINED =
     (Inl (KeyError ''home''), example_registry)"
    "async_delete example_registry ''home'' = (Inl (KeyError ''home''), example_registry)"
    using t2 g inv d by simp_all
  from inv 1 2 g 3 show ?thesis by simp
qed

end
